theory Spec2Isabelle
  imports Complex_Main
begin

section \<open>Parsed JSON documents and the Python operations the module applies to them\<close>

text \<open>
  The two documents that \<^verbatim>\<open>attck.py\<close> holds are the values a JSON parser returns. A dict
  is an association list in insertion order, read with \<open>map_of\<close>; Python's \<open>None\<close> is \<open>JNull\<close>.
\<close>

datatype json =
    JNull
  | JBool bool
  | JNum rat
  | JStr string
  | JArr "json list"
  | JObj "(string \<times> json) list"

text \<open>Python's truth value of an object, as \<^verbatim>\<open>if not x\<close> tests it.\<close>

fun truthy :: "json \<Rightarrow> bool" where
  "truthy JNull = False"
| "truthy (JBool b) = b"
| "truthy (JNum n) = (n \<noteq> 0)"
| "truthy (JStr s) = (s \<noteq> [])"
| "truthy (JArr xs) = (xs \<noteq> [])"
| "truthy (JObj kvs) = (kvs \<noteq> [])"

text \<open>
  The exceptions. \<open>KeyError\<close> and \<open>TypeError\<close> are what Python raises inside the module;
  \<open>DataUnavailableError\<close> is what the dataset provider may raise; \<open>SchemaError\<close> is the error
  the specification names for a malformed document (no path of the module raises it).
\<close>

datatype error = KeyError string | TypeError | SchemaError | DataUnavailableError

text \<open>\<^verbatim>\<open>v[key]\<close> for a string key: only a dict can be subscripted by a string.\<close>

fun subscript :: "json \<Rightarrow> string \<Rightarrow> error + json" where
  "subscript (JObj kvs) k = (case map_of kvs k of None \<Rightarrow> Inl (KeyError k) | Some v \<Rightarrow> Inr v)"
| "subscript JNull k = Inl TypeError"
| "subscript (JBool b) k = Inl TypeError"
| "subscript (JNum n) k = Inl TypeError"
| "subscript (JStr s) k = Inl TypeError"
| "subscript (JArr xs) k = Inl TypeError"

text \<open>
  \<^verbatim>\<open>for x in v\<close>: a list yields its elements, a dict its keys, a string its characters;
  nothing else is iterable.
\<close>

fun iterate :: "json \<Rightarrow> error + json list" where
  "iterate (JArr xs) = Inr xs"
| "iterate (JObj kvs) = Inr (map (\<lambda>kv. JStr (fst kv)) kvs)"
| "iterate (JStr s) = Inr (map (\<lambda>c. JStr [c]) s)"
| "iterate JNull = Inl TypeError"
| "iterate (JBool b) = Inl TypeError"
| "iterate (JNum n) = Inl TypeError"

text \<open>
  The keyword arguments of a call \<^verbatim>\<open>f(attck_obj=doc, **node)\<close>: the node must be a mapping,
  and a key \<^verbatim>\<open>attck_obj\<close> in it collides with the explicit keyword (TypeError, raised
  by the call itself).
\<close>

fun keyword_arguments :: "json \<Rightarrow> error + (string \<times> json) list" where
  "keyword_arguments (JObj kvs) =
     (if ''attck_obj'' \<in> set (map fst kvs) then Inl TypeError else Inr kvs)"
| "keyword_arguments JNull = Inl TypeError"
| "keyword_arguments (JBool b) = Inl TypeError"
| "keyword_arguments (JNum n) = Inl TypeError"
| "keyword_arguments (JStr s) = Inl TypeError"
| "keyword_arguments (JArr xs) = Inl TypeError"

text \<open>
  Python's name mangling: inside the body of class \<open>cls\<close>, an identifier with two leading
  underscores that does not end in two underscores is rewritten to \<open>_cls\<close> followed by the
  identifier, the class name without its leading underscores.
\<close>

definition private_name :: "string \<Rightarrow> bool" where
  "private_name name \<longleftrightarrow>
     take 2 name = ''__'' \<and> take 2 (rev name) \<noteq> ''__''"

definition mangle :: "string \<Rightarrow> string \<Rightarrow> string" where
  "mangle cls name =
     (let c = dropWhile (\<lambda>ch. ch = CHR ''_'') cls
      in if private_name name \<and> c \<noteq> [] then ''_'' @ c @ name else name)"

section \<open>Typed entities\<close>

datatype kind = Tactic | Technique | Mitigation | Actor | Tool | Malware

text \<open>The \<^verbatim>\<open>type\<close> string each accessor compares a node's type with.\<close>

fun type_tag :: "kind \<Rightarrow> string" where
  "type_tag Actor = ''intrusion-set''"
| "type_tag Tactic = ''x-mitre-tactic''"
| "type_tag Mitigation = ''course-of-action''"
| "type_tag Tool = ''tool''"
| "type_tag Malware = ''malware''"
| "type_tag Technique = ''attack-pattern''"

text \<open>
  Modelled from the spec: the entity classes (AttckActor, AttckTactic, AttckMitigation,
  AttckTools, AttckMalware, AttckTechnique) live in \<^verbatim>\<open>pyattck/enterprise/\<close> and are not part
  of \<^verbatim>\<open>attck.py\<close>. An entity is a read-only view over exactly one raw node, tagged with its
  kind: the object made by \<^verbatim>\<open>Cls(attck_obj=doc, **node)\<close> keeps the class, the document
  and the node's fields. \<open>oid\<close> is the identity of the Python object (its address).
\<close>

record entity =
  oid :: nat
  kind :: kind
  attck_obj :: json
  raw :: "(string \<times> json) list"

definition new_entity :: "kind \<Rightarrow> nat \<Rightarrow> json \<Rightarrow> (string \<times> json) list \<Rightarrow> entity" where
  "new_entity k n doc kvs = \<lparr>oid = n, kind = k, attck_obj = doc, raw = kvs\<rparr>"

section \<open>The Attck class\<close>

text \<open>
  The calls the module makes to its collaborators, in the order made. \<open>Mitre force sub\<close> is
  \<^verbatim>\<open>AttckDatasets.mitre(force=force[, subtechniques=True])\<close> (\<open>sub = None\<close> when the keyword is
  not passed), \<open>Generated force\<close> is \<^verbatim>\<open>generated_attck_data(force=force)\<close>,
  \<open>ConfigurationSet a d\<close> is \<^verbatim>\<open>Configuration().set(enterprise_attck_json_path=a,
  enterprise_attck_dataset_path=d)\<close> and \<open>ConfigurationReset\<close> is \<^verbatim>\<open>Configuration().set()\<close>.
\<close>

datatype call =
    Mitre bool "bool option"
  | Generated bool
  | ConfigurationSet "string option" "string option"
  | ConfigurationReset

text \<open>
  The dataset provider (class AttckDatasets, outside \<^verbatim>\<open>attck.py\<close>) is a parameter: what it
  returns or raises may depend on the calls made so far.
\<close>

record datasets =
  mitre :: "call list \<Rightarrow> bool \<Rightarrow> bool option \<Rightarrow> error + json"
  generated_attck_data :: "call list \<Rightarrow> bool \<Rightarrow> error + json"

text \<open>
  The process-wide state: the two class attributes of Attck that hold the documents, the
  attributes of the class Configuration, the calls made to the collaborators, and the
  number of entity objects allocated so far.
\<close>

record process =
  ENTERPRISE_ATTCK_JSON :: json
  ENTERPRISE_GENERATED_DATA_JSON :: json
  Configuration_attrs :: "string \<rightharpoonup> string"
  calls :: "call list"
  allocated :: nat

definition fresh_process :: process where
  "fresh_process =
     \<lparr>ENTERPRISE_ATTCK_JSON = JNull, ENTERPRISE_GENERATED_DATA_JSON = JNull,
      Configuration_attrs = Map.empty, calls = [], allocated = 0\<rparr>"

text \<open>
  An Attck object: \<open>subtechniques\<close>, and the six private attributes \<^verbatim>\<open>__tactics\<close>, ...,
  \<^verbatim>\<open>__malwares\<close> indexed by kind, each \<open>None\<close> (the class default) until the object stores
  its own list.
\<close>

record attck =
  subtechniques :: bool
  stored :: "kind \<Rightarrow> entity list option"

text \<open>\<^verbatim>\<open>__load_data\<close>, first statement: the graph document.\<close>

definition load_enterprise :: "datasets \<Rightarrow> attck \<Rightarrow> bool \<Rightarrow> process \<Rightarrow> (error + unit) \<times> process" where
  "load_enterprise ds self force p =
     (if \<not> truthy (ENTERPRISE_ATTCK_JSON p) then
        (let sub = (if subtechniques self then Some True else None);
             p' = p\<lparr>calls := calls p @ [Mitre force sub]\<rparr>
         in case mitre ds (calls p) force sub of
              Inl e \<Rightarrow> (Inl e, p')
            | Inr d \<Rightarrow> (Inr (), p'\<lparr>ENTERPRISE_ATTCK_JSON := d\<rparr>))
      else (Inr (), p))"

text \<open>\<^verbatim>\<open>__load_data\<close>, second statement: the generated (enrichment) document.\<close>

definition load_generated :: "datasets \<Rightarrow> bool \<Rightarrow> process \<Rightarrow> (error + unit) \<times> process" where
  "load_generated ds force p =
     (if \<not> truthy (ENTERPRISE_GENERATED_DATA_JSON p) then
        (let p' = p\<lparr>calls := calls p @ [Generated force]\<rparr>
         in case generated_attck_data ds (calls p) force of
              Inl e \<Rightarrow> (Inl e, p')
            | Inr d \<Rightarrow> (Inr (), p'\<lparr>ENTERPRISE_GENERATED_DATA_JSON := d\<rparr>))
      else (Inr (), p))"

definition load_data :: "datasets \<Rightarrow> attck \<Rightarrow> bool \<Rightarrow> process \<Rightarrow> (error + unit) \<times> process" where
  "load_data ds self force p =
     (case load_enterprise ds self force p of
        (Inl e, p1) \<Rightarrow> (Inl e, p1)
      | (Inr u, p1) \<Rightarrow> load_generated ds force p1)"

definition update :: "datasets \<Rightarrow> attck \<Rightarrow> process \<Rightarrow> (error + unit) \<times> process" where
  "update ds self p = load_data ds self True p"

text \<open>Truth value of an optional string argument (\<open>None\<close> and the empty string are false).\<close>

fun given :: "string option \<Rightarrow> bool" where
  "given None = False"
| "given (Some s) = (s \<noteq> [])"

text \<open>
  The statements of \<^verbatim>\<open>__init__\<close> before the load step. The assignment
  \<^verbatim>\<open>Configuration.__CONFIG_FILE = config_path\<close> stands in the body of class Attck, so the
  attribute it binds on Configuration is the mangled one. The calls to
  \<^verbatim>\<open>Configuration().set\<close> are recorded; that class is outside \<^verbatim>\<open>attck.py\<close>.
\<close>

definition configure :: "string option \<Rightarrow> string option \<Rightarrow> string option \<Rightarrow> bool \<Rightarrow> process \<Rightarrow> process" where
  "configure attck_json dataset_json config_path force p =
     (let p1 = (if given config_path
                then p\<lparr>Configuration_attrs :=
                        (Configuration_attrs p)(mangle ''Attck'' ''__CONFIG_FILE'' \<mapsto> the config_path)\<rparr>
                else p);
          p2 = (if given attck_json \<or> given dataset_json
                then p1\<lparr>calls := calls p1 @ [ConfigurationSet attck_json dataset_json]\<rparr>
                else p1)
      in if force then p2\<lparr>calls := calls p2 @ [ConfigurationReset]\<rparr> else p2)"

text \<open>
  \<^verbatim>\<open>__init__\<close>: the object gets its \<open>subtechniques\<close> attribute, the configuration statements
  run, and the load step is called without arguments, so with \<open>force = False\<close>. When the
  load step raises, no object is returned.
\<close>

definition init ::
  "datasets \<Rightarrow> bool \<Rightarrow> string option \<Rightarrow> string option \<Rightarrow> string option \<Rightarrow> bool \<Rightarrow> process
     \<Rightarrow> (error + attck) \<times> process" where
  "init ds sub attck_json dataset_json config_path force p =
     (let self = \<lparr>subtechniques = sub, stored = (\<lambda>k. None)\<rparr>
      in case load_data ds self False (configure attck_json dataset_json config_path force p) of
           (Inl e, p4) \<Rightarrow> (Inl e, p4)
         | (Inr u, p4) \<Rightarrow> (Inr self, p4))"

text \<open>
  The loop of a collection property over the items of \<^verbatim>\<open>doc['objects']\<close>: \<open>acc\<close> is the list
  being appended to, \<open>n\<close> the allocation counter. An exception leaves the list as built so far.
\<close>

fun append_entities ::
  "kind \<Rightarrow> json \<Rightarrow> json list \<Rightarrow> entity list \<Rightarrow> nat \<Rightarrow> error option \<times> entity list \<times> nat" where
  "append_entities k doc [] acc n = (None, acc, n)"
| "append_entities k doc (x # xs) acc n =
     (case subscript x ''type'' of
        Inl e \<Rightarrow> (Some e, acc, n)
      | Inr t \<Rightarrow>
          if t = JStr (type_tag k) then
            (case keyword_arguments x of
               Inl e \<Rightarrow> (Some e, acc, n)
             | Inr kvs \<Rightarrow> append_entities k doc xs (acc @ [new_entity k n doc kvs]) (Suc n))
          else append_entities k doc xs acc n)"

text \<open>
  The common body of the six collection properties: when the object has no list of its own
  yet, store an empty one and fill it from the document; then return the stored list. The
  six properties differ in the type string and the entity class only, which \<open>k\<close> stands for.
  The DeprecationWarning each property emits first changes no data and is left out, as is
  the property \<^verbatim>\<open>enterprise\<close>, which only hands the document to a class outside this file.
\<close>

definition collection :: "kind \<Rightarrow> attck \<Rightarrow> process \<Rightarrow> (error + entity list) \<times> attck \<times> process" where
  "collection k self p =
     (case stored self k of
        Some es \<Rightarrow> (Inr es, self, p)
      | None \<Rightarrow>
          (case subscript (ENTERPRISE_ATTCK_JSON p) ''objects'' of
             Inl e \<Rightarrow> (Inl e, self\<lparr>stored := (stored self)(k \<mapsto> [])\<rparr>, p)
           | Inr v \<Rightarrow>
               (case iterate v of
                  Inl e \<Rightarrow> (Inl e, self\<lparr>stored := (stored self)(k \<mapsto> [])\<rparr>, p)
                | Inr xs \<Rightarrow>
                    (case append_entities k (ENTERPRISE_ATTCK_JSON p) xs [] (allocated p) of
                       (None, es, n) \<Rightarrow>
                         (Inr es, self\<lparr>stored := (stored self)(k \<mapsto> es)\<rparr>, p\<lparr>allocated := n\<rparr>)
                     | (Some e, es, n) \<Rightarrow>
                         (Inl e, self\<lparr>stored := (stored self)(k \<mapsto> es)\<rparr>, p\<lparr>allocated := n\<rparr>)))))"

definition actors :: "attck \<Rightarrow> process \<Rightarrow> (error + entity list) \<times> attck \<times> process" where
  "actors = collection Actor"

definition tactics :: "attck \<Rightarrow> process \<Rightarrow> (error + entity list) \<times> attck \<times> process" where
  "tactics = collection Tactic"

definition mitigations :: "attck \<Rightarrow> process \<Rightarrow> (error + entity list) \<times> attck \<times> process" where
  "mitigations = collection Mitigation"

definition tools :: "attck \<Rightarrow> process \<Rightarrow> (error + entity list) \<times> attck \<times> process" where
  "tools = collection Tool"

definition malwares :: "attck \<Rightarrow> process \<Rightarrow> (error + entity list) \<times> attck \<times> process" where
  "malwares = collection Malware"

definition techniques :: "attck \<Rightarrow> process \<Rightarrow> (error + entity list) \<times> attck \<times> process" where
  "techniques = collection Technique"

section \<open>Runs of the program\<close>

text \<open>
  What a client does with the class: construct an object, call \<^verbatim>\<open>update()\<close> on an object,
  read a collection property of an object. Objects are numbered in order of construction;
  an object whose \<^verbatim>\<open>__init__\<close> raised is not kept. \<open>run\<close> starts from the fresh process.
\<close>

datatype operation =
    New bool "string option" "string option" "string option" bool
  | Update nat
  | Get kind nat

fun exec :: "datasets \<Rightarrow> process \<times> attck list \<Rightarrow> operation \<Rightarrow> process \<times> attck list" where
  "exec ds (p, objs) (New sub attck_json dataset_json config_path force) =
     (case init ds sub attck_json dataset_json config_path force p of
        (Inl e, p') \<Rightarrow> (p', objs)
      | (Inr self, p') \<Rightarrow> (p', objs @ [self]))"
| "exec ds (p, objs) (Update i) =
     (if i < length objs then (snd (update ds (objs ! i) p), objs) else (p, objs))"
| "exec ds (p, objs) (Get k i) =
     (if i < length objs
      then (snd (snd (collection k (objs ! i) p)), objs[i := fst (snd (collection k (objs ! i) p))])
      else (p, objs))"

definition run_from :: "datasets \<Rightarrow> process \<times> attck list \<Rightarrow> operation list \<Rightarrow> process \<times> attck list" where
  "run_from ds s ops = foldl (exec ds) s ops"

definition run :: "datasets \<Rightarrow> operation list \<Rightarrow> process \<times> attck list" where
  "run ds ops = run_from ds (fresh_process, []) ops"

section \<open>Vocabulary of the specification\<close>

text \<open>The node collection of a document, as the collection properties iterate it.\<close>

definition nodes :: "json \<Rightarrow> json list" where
  "nodes doc =
     (case subscript doc ''objects'' of
        Inl e \<Rightarrow> []
      | Inr v \<Rightarrow> (case iterate v of Inl e \<Rightarrow> [] | Inr xs \<Rightarrow> xs))"

definition declared_type :: "json \<Rightarrow> json option" where
  "declared_type n = (case subscript n ''type'' of Inl e \<Rightarrow> None | Inr t \<Rightarrow> Some t)"

definition internal_id :: "json \<Rightarrow> json option" where
  "internal_id n = (case subscript n ''id'' of Inl e \<Rightarrow> None | Inr i \<Rightarrow> Some i)"

definition of_kind :: "kind \<Rightarrow> json \<Rightarrow> bool" where
  "of_kind k n \<longleftrightarrow> declared_type n = Some (JStr (type_tag k))"

text \<open>The raw node an entity is a view of.\<close>

definition backing_node :: "entity \<Rightarrow> json" where
  "backing_node e = JObj (raw e)"

text \<open>
  Modelled from the spec: NodeIndex and its \<^verbatim>\<open>nodeById\<close> are not in \<^verbatim>\<open>attck.py\<close>. The index
  is a lookup from internal identifier to raw node, built over the node collection in
  document order; on a duplicate identifier the last write wins.
\<close>

definition build :: "json list \<Rightarrow> (json \<rightharpoonup> json)" where
  "build ns = fold (\<lambda>n m. case internal_id n of None \<Rightarrow> m | Some i \<Rightarrow> m(i \<mapsto> n)) ns Map.empty"

definition nodeById :: "json \<Rightarrow> json \<Rightarrow> json option" where
  "nodeById doc i = build (nodes doc) i"

text \<open>
  A graph document of the shape the collection properties expect: a dict whose
  \<^verbatim>\<open>objects\<close> entry is a list of dict nodes, each with a \<^verbatim>\<open>type\<close> and none with a field
  named \<^verbatim>\<open>attck_obj\<close>. A provider delivers graph documents when every graph document it
  returns has this shape (it may also raise).
\<close>

fun typed_node :: "json \<Rightarrow> bool" where
  "typed_node (JObj kvs) \<longleftrightarrow> map_of kvs ''type'' \<noteq> None \<and> ''attck_obj'' \<notin> set (map fst kvs)"
| "typed_node JNull \<longleftrightarrow> False"
| "typed_node (JBool b) \<longleftrightarrow> False"
| "typed_node (JNum n) \<longleftrightarrow> False"
| "typed_node (JStr s) \<longleftrightarrow> False"
| "typed_node (JArr xs) \<longleftrightarrow> False"

definition graph_document :: "json \<Rightarrow> bool" where
  "graph_document doc \<longleftrightarrow>
     (case subscript doc ''objects'' of
        Inr (JArr xs) \<Rightarrow> list_all typed_node xs
      | _ \<Rightarrow> False)"

definition delivers_graph_documents :: "datasets \<Rightarrow> bool" where
  "delivers_graph_documents ds \<longleftrightarrow>
     (\<forall>log force sub d. mitre ds log force sub = Inr d \<longrightarrow> graph_document d)"

text \<open>Requests for a document, and requests that carry the force flag.\<close>

fun fetch :: "call \<Rightarrow> bool" where
  "fetch (Mitre f s) = True"
| "fetch (Generated f) = True"
| "fetch (ConfigurationSet a d) = False"
| "fetch ConfigurationReset = False"

fun forced :: "call \<Rightarrow> bool" where
  "forced (Mitre f s) = f"
| "forced (Generated f) = f"
| "forced (ConfigurationSet a d) = False"
| "forced ConfigurationReset = False"


section \<open>Invariants of runs\<close>

text \<open>
  What holds of the lists an object has stored, in every run: each stored entity is of the
  list's kind and views a node of that type in the current graph document.
\<close>

definition views :: "process \<Rightarrow> attck \<Rightarrow> bool" where
  "views p self \<longleftrightarrow>
     (\<forall>k es. stored self k = Some es \<longrightarrow>
        (\<forall>e\<in>set es. kind e = k \<and> attck_obj e = ENTERPRISE_ATTCK_JSON p
           \<and> backing_node e \<in> set (nodes (ENTERPRISE_ATTCK_JSON p)) \<and> of_kind k (backing_node e)))"

text \<open>
  What holds of the stored lists when the provider delivers graph documents: each stored
  list is the projection of the document's nodes of its kind, in document order, one entity
  object per node.
\<close>

definition projects :: "process \<Rightarrow> attck \<Rightarrow> bool" where
  "projects p self \<longleftrightarrow>
     (\<forall>k es. stored self k = Some es \<longrightarrow>
        map backing_node es = filter (of_kind k) (nodes (ENTERPRISE_ATTCK_JSON p))
        \<and> distinct (map oid es)
        \<and> (\<forall>e\<in>set es. kind e = k \<and> attck_obj e = ENTERPRISE_ATTCK_JSON p))"

definition consistent :: "process \<times> attck list \<Rightarrow> bool" where
  "consistent s \<longleftrightarrow>
     (truthy (ENTERPRISE_ATTCK_JSON (fst s)) \<longrightarrow> graph_document (ENTERPRISE_ATTCK_JSON (fst s)))
     \<and> (snd s \<noteq> [] \<longrightarrow> graph_document (ENTERPRISE_ATTCK_JSON (fst s)))
     \<and> (\<forall>self\<in>set (snd s). projects (fst s) self)"

section \<open>Sample data\<close>

definition technique_node :: json where
  "technique_node =
     JObj [(''type'', JStr ''attack-pattern''), (''id'', JStr ''attack-pattern--01''),
           (''name'', JStr ''Phishing'')]"

definition subtechnique_node :: json where
  "subtechnique_node =
     JObj [(''type'', JStr ''attack-pattern''), (''id'', JStr ''attack-pattern--02''),
           (''x_mitre_is_subtechnique'', JBool True)]"

definition malware_node :: json where
  "malware_node = JObj [(''type'', JStr ''malware''), (''id'', JStr ''malware--01'')]"

definition cached_doc :: json where
  "cached_doc =
     JObj [(''type'', JStr ''bundle''), (''objects'', JArr [technique_node, malware_node])]"

definition remote_doc :: json where
  "remote_doc = JObj [(''type'', JStr ''bundle''), (''objects'', JArr [malware_node])]"

definition expanded_doc :: json where
  "expanded_doc =
     JObj [(''type'', JStr ''bundle''),
           (''objects'', JArr [technique_node, subtechnique_node, malware_node])]"

definition enrichment_doc :: json where
  "enrichment_doc = JObj [(''techniques'', JArr [])]"

text \<open>
  A provider whose cache holds \<open>cached_doc\<close>, whose remote source holds \<open>remote_doc\<close>, and
  which expands sub-techniques on request.
\<close>

definition provider :: datasets where
  "provider =
     \<lparr>mitre = (\<lambda>log force sub.
         Inr (if sub = Some True then expanded_doc else if force then remote_doc else cached_doc)),
      generated_attck_data = (\<lambda>log force. Inr enrichment_doc)\<rparr>"

text \<open>A document without the \<^verbatim>\<open>objects\<close> key, and a provider that returns it.\<close>

definition headless_doc :: json where
  "headless_doc = JObj [(''type'', JStr ''bundle''), (''spec_version'', JStr ''2.0'')]"

definition headless_provider :: datasets where
  "headless_provider =
     \<lparr>mitre = (\<lambda>log force sub. Inr headless_doc),
      generated_attck_data = (\<lambda>log force. Inr enrichment_doc)\<rparr>"

text \<open>The object \<^verbatim>\<open>Attck()\<close> and the process state after constructing it first.\<close>

definition plain :: attck where
  "plain = \<lparr>subtechniques = False, stored = (\<lambda>k. None)\<rparr>"

definition loaded :: process where
  "loaded =
     \<lparr>ENTERPRISE_ATTCK_JSON = cached_doc, ENTERPRISE_GENERATED_DATA_JSON = enrichment_doc,
      Configuration_attrs = Map.empty, calls = [Mitre False None, Generated False],
      allocated = 0\<rparr>"

text \<open>The object \<^verbatim>\<open>Attck(subtechniques=True)\<close>.\<close>

definition expanding :: attck where
  "expanding = \<lparr>subtechniques = True, stored = (\<lambda>k. None)\<rparr>"

text \<open>
  The entity that the first read of \<^verbatim>\<open>techniques\<close> on \<open>plain\<close> makes in the process \<open>loaded\<close>,
  and the object after that read.
\<close>

definition first_technique :: entity where
  "first_technique =
     \<lparr>oid = 0, kind = Technique, attck_obj = cached_doc,
      raw = [(''type'', JStr ''attack-pattern''), (''id'', JStr ''attack-pattern--01''),
             (''name'', JStr ''Phishing'')]\<rparr>"

definition accessed :: attck where
  "accessed = \<lparr>subtechniques = False, stored = (\<lambda>k. None)(Technique \<mapsto> [first_technique])\<rparr>"

text \<open>
  Two nodes with the same id and different types, a document that holds both, and a provider
  that returns it.
\<close>

definition twin_technique :: json where
  "twin_technique = JObj [(''type'', JStr ''attack-pattern''), (''id'', JStr ''x--7'')]"

definition twin_malware :: json where
  "twin_malware = JObj [(''type'', JStr ''malware''), (''id'', JStr ''x--7'')]"

definition twin_doc :: json where
  "twin_doc = JObj [(''objects'', JArr [twin_technique, twin_malware])]"

definition twin_provider :: datasets where
  "twin_provider =
     \<lparr>mitre = (\<lambda>log force sub. Inr twin_doc),
      generated_attck_data = (\<lambda>log force. Inr enrichment_doc)\<rparr>"

text \<open>The entity that \<^verbatim>\<open>techniques\<close> makes for the first node of \<open>twin_doc\<close>.\<close>

definition twin_entity :: entity where
  "twin_entity =
     \<lparr>oid = 0, kind = Technique, attck_obj = twin_doc,
      raw = [(''type'', JStr ''attack-pattern''), (''id'', JStr ''x--7'')]\<rparr>"

text \<open>A node with a field named \<^verbatim>\<open>attck_obj\<close>, and a provider that returns a document with it.\<close>

definition colliding_node :: json where
  "colliding_node =
     JObj [(''type'', JStr ''attack-pattern''), (''id'', JStr ''attack-pattern--09''),
           (''attck_obj'', JNull)]"

definition colliding_doc :: json where
  "colliding_doc = JObj [(''objects'', JArr [colliding_node])]"

definition colliding_provider :: datasets where
  "colliding_provider =
     \<lparr>mitre = (\<lambda>log force sub. Inr colliding_doc),
      generated_attck_data = (\<lambda>log force. Inr enrichment_doc)\<rparr>"

text \<open>
  The process after \<^verbatim>\<open>Attck()\<close> with \<open>headless_provider\<close>, and the object after a read of
  \<^verbatim>\<open>techniques\<close> that raised there.
\<close>

definition headless_loaded :: process where
  "headless_loaded =
     \<lparr>ENTERPRISE_ATTCK_JSON = headless_doc, ENTERPRISE_GENERATED_DATA_JSON = enrichment_doc,
      Configuration_attrs = Map.empty, calls = [Mitre False None, Generated False],
      allocated = 0\<rparr>"

definition emptied :: attck where
  "emptied = \<lparr>subtechniques = False, stored = (\<lambda>k. None)(Technique \<mapsto> [])\<rparr>"

text \<open>A provider never returns an empty (false) document.\<close>

definition delivers_nonempty_documents :: "datasets \<Rightarrow> bool" where
  "delivers_nonempty_documents ds \<longleftrightarrow>
     (\<forall>log force sub d. mitre ds log force sub = Inr d \<longrightarrow> truthy d)
     \<and> (\<forall>log force g. generated_attck_data ds log force = Inr g \<longrightarrow> truthy g)"

text \<open>A provider whose enrichment document is an empty dict.\<close>

definition hollow_provider :: datasets where
  "hollow_provider =
     \<lparr>mitre = (\<lambda>log force sub. Inr cached_doc),
      generated_attck_data = (\<lambda>log force. Inr (JObj []))\<rparr>"

section \<open>Loading\<close>

lemma truthy_subscript: "subscript d k = Inr v \<Longrightarrow> truthy d"
  by (cases d) (auto split: option.splits)

lemma load_data_loaded:
  "truthy (ENTERPRISE_ATTCK_JSON p) \<Longrightarrow> truthy (ENTERPRISE_GENERATED_DATA_JSON p) \<Longrightarrow>
   load_data ds self force p = (Inr (), p)"
  by (simp add: load_data_def load_enterprise_def load_generated_def)

lemma loaded_truthy:
  "truthy (ENTERPRISE_ATTCK_JSON loaded)" "truthy (ENTERPRISE_GENERATED_DATA_JSON loaded)"
  by (simp_all add: loaded_def cached_doc_def enrichment_doc_def)

lemma init_plain: "init provider False None None None False fresh_process = (Inr plain, loaded)"
  by (simp add: init_def configure_def load_data_def load_enterprise_def load_generated_def
      provider_def fresh_process_def plain_def loaded_def cached_doc_def enrichment_doc_def Let_def)

lemma load_enterprise_frame:
  "Configuration_attrs (snd (load_enterprise ds self force p)) = Configuration_attrs p"
  "allocated (snd (load_enterprise ds self force p)) = allocated p"
  "ENTERPRISE_GENERATED_DATA_JSON (snd (load_enterprise ds self force p)) = ENTERPRISE_GENERATED_DATA_JSON p"
  by (simp_all add: load_enterprise_def Let_def split: sum.splits)

lemma load_generated_frame:
  "Configuration_attrs (snd (load_generated ds force p)) = Configuration_attrs p"
  "allocated (snd (load_generated ds force p)) = allocated p"
  "ENTERPRISE_ATTCK_JSON (snd (load_generated ds force p)) = ENTERPRISE_ATTCK_JSON p"
  by (simp_all add: load_generated_def Let_def split: sum.splits)

lemma load_data_snd:
  "snd (load_data ds self force p) =
     (case fst (load_enterprise ds self force p) of
        Inl e \<Rightarrow> snd (load_enterprise ds self force p)
      | Inr u \<Rightarrow> snd (load_generated ds force (snd (load_enterprise ds self force p))))"
  by (simp add: load_data_def split: prod.splits sum.splits)

lemma load_data_frame:
  "Configuration_attrs (snd (load_data ds self force p)) = Configuration_attrs p"
  "allocated (snd (load_data ds self force p)) = allocated p"
  by (simp_all add: load_data_snd load_enterprise_frame load_generated_frame split: sum.splits)

lemma load_data_document:
  "ENTERPRISE_ATTCK_JSON (snd (load_data ds self force p)) =
     (if truthy (ENTERPRISE_ATTCK_JSON p) then ENTERPRISE_ATTCK_JSON p
      else case mitre ds (calls p) force (if subtechniques self then Some True else None) of
             Inl e \<Rightarrow> ENTERPRISE_ATTCK_JSON p
           | Inr d \<Rightarrow> d)"
  by (simp add: load_data_snd load_generated_frame split: sum.splits)
     (simp add: load_enterprise_def Let_def split: sum.splits)

lemma load_enterprise_calls:
  "calls (snd (load_enterprise ds self force p)) =
     calls p @ (if truthy (ENTERPRISE_ATTCK_JSON p) then []
                else [Mitre force (if subtechniques self then Some True else None)])"
  by (simp add: load_enterprise_def Let_def split: sum.splits)

lemma load_generated_calls:
  "calls (snd (load_generated ds force p)) =
     calls p @ (if truthy (ENTERPRISE_GENERATED_DATA_JSON p) then [] else [Generated force])"
  by (simp add: load_generated_def Let_def split: sum.splits)

lemma load_data_calls:
  "calls (snd (load_data ds self force p)) =
     calls p
     @ (if truthy (ENTERPRISE_ATTCK_JSON p) then []
        else [Mitre force (if subtechniques self then Some True else None)])
     @ (case fst (load_enterprise ds self force p) of
          Inl e \<Rightarrow> []
        | Inr u \<Rightarrow> if truthy (ENTERPRISE_GENERATED_DATA_JSON p) then [] else [Generated force])"
proof (cases "fst (load_enterprise ds self force p)")
  case (Inl e)
  then show ?thesis
    by (simp add: load_data_snd load_enterprise_calls)
next
  case (Inr u)
  then show ?thesis
    by (simp add: load_data_snd load_generated_calls load_enterprise_calls load_enterprise_frame)
qed

lemma load_data_forced:
  "filter forced (calls (snd (load_data ds self False p))) = filter forced (calls p)"
  by (cases "fst (load_enterprise ds self False p)") (simp_all add: load_data_calls)


lemma load_data_calls_prefix:
  "\<exists>cs. calls (snd (load_data ds self force p)) = calls p @ cs"
  by (simp add: load_data_calls)

lemma configure_frame:
  "ENTERPRISE_ATTCK_JSON (configure aj dj cp force p) = ENTERPRISE_ATTCK_JSON p"
  "ENTERPRISE_GENERATED_DATA_JSON (configure aj dj cp force p) = ENTERPRISE_GENERATED_DATA_JSON p"
  "allocated (configure aj dj cp force p) = allocated p"
  by (simp_all add: configure_def Let_def)

lemma configure_calls:
  "calls (configure aj dj cp force p) =
     calls p @ (if given aj \<or> given dj then [ConfigurationSet aj dj] else [])
             @ (if force then [ConfigurationReset] else [])"
  by (simp add: configure_def Let_def)

lemma configure_attrs:
  "Configuration_attrs (configure aj dj cp force p) =
     (if given cp then (Configuration_attrs p)(mangle ''Attck'' ''__CONFIG_FILE'' \<mapsto> the cp)
      else Configuration_attrs p)"
  by (simp add: configure_def Let_def)

lemma init_snd:
  "snd (init ds sub aj dj cp force p) =
     snd (load_data ds \<lparr>subtechniques = sub, stored = (\<lambda>k. None)\<rparr> False (configure aj dj cp force p))"
  by (simp add: init_def Let_def split: prod.splits sum.splits)

lemma init_fst:
  "fst (init ds sub aj dj cp force p) =
     (case fst (load_data ds \<lparr>subtechniques = sub, stored = (\<lambda>k. None)\<rparr> False (configure aj dj cp force p)) of
        Inl e \<Rightarrow> Inl e
      | Inr u \<Rightarrow> Inr \<lparr>subtechniques = sub, stored = (\<lambda>k. None)\<rparr>)"
  by (simp add: init_def Let_def split: prod.splits sum.splits)

lemma mangle_Attck: "mangle ''Attck'' ''__CONFIG_FILE'' = ''_Attck__CONFIG_FILE''"
  by (simp add: mangle_def private_name_def)

lemma mangle_Configuration: "mangle ''Configuration'' ''__CONFIG_FILE'' = ''_Configuration__CONFIG_FILE''"
  by (simp add: mangle_def private_name_def)

section \<open>Claims about loading and construction\<close>

text \<open>
  C1. The claim: for an object whose documents are already loaded, \<^verbatim>\<open>update()\<close> forces a
  reload of both documents from the provider, and the stored documents are then those of a
  fresh fetch with \<open>force = True\<close>. The code does not do that: \<^verbatim>\<open>update\<close> passes
  \<open>force = True\<close> to the load step, but the load step only asks the provider when the class
  attribute is false. After \<^verbatim>\<open>Attck()\<close> in a fresh process the provider's cached document is
  stored; \<^verbatim>\<open>update()\<close> then returns without any call to the provider and without changing the
  state, although a forced fetch would return a different document.
\<close>

theorem update_skips_reload:
  "init provider False None None None False fresh_process = (Inr plain, loaded)
   \<and> update provider plain loaded = (Inr (), loaded)
   \<and> ENTERPRISE_ATTCK_JSON loaded = cached_doc
   \<and> mitre provider (calls loaded) True None = Inr remote_doc
   \<and> cached_doc \<noteq> remote_doc"
proof -
  have "update provider plain loaded = (Inr (), loaded)"
    unfolding update_def by (rule load_data_loaded) (rule loaded_truthy)+
  moreover have "ENTERPRISE_ATTCK_JSON loaded = cached_doc"
    by (simp add: loaded_def)
  moreover have "mitre provider (calls loaded) True None = Inr remote_doc"
    by (simp add: provider_def)
  moreover have "cached_doc \<noteq> remote_doc"
    by (simp add: cached_doc_def remote_doc_def)
  ultimately show ?thesis
    using init_plain by simp
qed




text \<open>
  C10. Constructing with a config path binds the attribute \<^verbatim>\<open>_Attck__CONFIG_FILE\<close> of the
  class Configuration (the name as mangled inside class Attck) and leaves
  \<^verbatim>\<open>_Configuration__CONFIG_FILE\<close>, the name Configuration's own code reads as
  \<^verbatim>\<open>__CONFIG_FILE\<close>, as it was.
\<close>

theorem config_path_binds_mangled_attribute:
  assumes "cp = Some path" and "path \<noteq> []"
  shows "Configuration_attrs (snd (init ds sub aj dj cp force p))
           = (Configuration_attrs p)(''_Attck__CONFIG_FILE'' \<mapsto> path)
     \<and> mangle ''Configuration'' ''__CONFIG_FILE'' = ''_Configuration__CONFIG_FILE''
     \<and> Configuration_attrs (snd (init ds sub aj dj cp force p)) ''_Configuration__CONFIG_FILE''
           = Configuration_attrs p ''_Configuration__CONFIG_FILE''"
  using assms
  by (simp add: init_snd load_data_frame configure_attrs mangle_Attck mangle_Configuration)

theorem config_path_binds_mangled_attribute_witness:
  "Some ''/etc/pyattck.yml'' = Some ''/etc/pyattck.yml'' \<and> ''/etc/pyattck.yml'' \<noteq> []
   \<and> Configuration_attrs
        (snd (init provider False None None (Some ''/etc/pyattck.yml'') False fresh_process))
        ''_Attck__CONFIG_FILE'' = Some ''/etc/pyattck.yml''
   \<and> Configuration_attrs
        (snd (init provider False None None (Some ''/etc/pyattck.yml'') False fresh_process))
        ''_Configuration__CONFIG_FILE'' = None"
  using config_path_binds_mangled_attribute
    [of "Some ''/etc/pyattck.yml''" "''/etc/pyattck.yml''" provider False None None False fresh_process]
  by (simp add: fresh_process_def)

text \<open>
  C8. The claim: a graph document without the \<^verbatim>\<open>objects\<close> key makes loading fail with
  SchemaError at load time. It does not: constructing an object with a provider that returns
  such a document succeeds and stores the document, and the failure comes later, as a
  KeyError, when a collection property is read.
\<close>

theorem missing_objects_counterexample:
  "fst (init headless_provider False None None None False fresh_process) = Inr plain
   \<and> ENTERPRISE_ATTCK_JSON (snd (init headless_provider False None None None False fresh_process))
        = headless_doc
   \<and> subscript headless_doc ''objects'' = Inl (KeyError ''objects'')
   \<and> fst (techniques plain (snd (init headless_provider False None None None False fresh_process)))
        = Inl (KeyError ''objects'')"
proof -
  let ?p = "\<lparr>ENTERPRISE_ATTCK_JSON = headless_doc, ENTERPRISE_GENERATED_DATA_JSON = enrichment_doc,
      Configuration_attrs = Map.empty, calls = [Mitre False None, Generated False],
      allocated = 0\<rparr>"
  have i: "init headless_provider False None None None False fresh_process = (Inr plain, ?p)"
    by (simp add: init_def configure_def load_data_def load_enterprise_def load_generated_def
        headless_provider_def fresh_process_def plain_def headless_doc_def enrichment_doc_def Let_def)
  have s: "subscript headless_doc ''objects'' = Inl (KeyError ''objects'')"
    by (simp add: headless_doc_def)
  have "fst (techniques plain ?p) = Inl (KeyError ''objects'')"
    by (simp add: techniques_def collection_def plain_def s)
  with i s show ?thesis by simp
qed

text \<open>
  C8 as amended: the load step does not check the document. When no graph document is loaded
  and the provider returns a dict without the \<^verbatim>\<open>objects\<close> key, the load step stores it; it
  raises only what the request for the generated document raises; and on an object with no
  stored list, each collection property then raises \<^verbatim>\<open>KeyError('objects')\<close>.
\<close>

theorem missing_objects_surface_at_access:
  assumes "\<not> truthy (ENTERPRISE_ATTCK_JSON p)"
    and "mitre ds (calls p) force (if subtechniques self then Some True else None) = Inr (JObj kvs)"
    and "map_of kvs ''objects'' = None"
  shows "ENTERPRISE_ATTCK_JSON (snd (load_data ds self force p)) = JObj kvs
     \<and> fst (load_data ds self force p)
         = (if truthy (ENTERPRISE_GENERATED_DATA_JSON p) then Inr ()
            else case generated_attck_data ds
                        (calls p @ [Mitre force (if subtechniques self then Some True else None)]) force of
                   Inl e \<Rightarrow> Inl e
                 | Inr g \<Rightarrow> Inr ())
     \<and> (stored obj k = None \<longrightarrow>
          fst (collection k obj (snd (load_data ds self force p))) = Inl (KeyError ''objects''))"
proof -
  let ?q = "snd (load_data ds self force p)"
  have d: "ENTERPRISE_ATTCK_JSON ?q = JObj kvs"
    using assms by (simp add: load_data_document)
  have r: "fst (load_data ds self force p)
         = (if truthy (ENTERPRISE_GENERATED_DATA_JSON p) then Inr ()
            else case generated_attck_data ds
                        (calls p @ [Mitre force (if subtechniques self then Some True else None)]) force of
                   Inl e \<Rightarrow> Inl e
                 | Inr g \<Rightarrow> Inr ())"
    using assms(1,2)
    by (simp add: load_data_def load_enterprise_def load_generated_def Let_def split: sum.splits)
  have "stored obj k = None \<Longrightarrow> fst (collection k obj ?q) = Inl (KeyError ''objects'')"
    using assms(3) by (simp add: collection_def d)
  with d r show ?thesis by blast
qed

theorem missing_objects_surface_at_access_witness:
  "\<not> truthy (ENTERPRISE_ATTCK_JSON fresh_process)
   \<and> map_of [(''type'', JStr ''bundle''), (''spec_version'', JStr ''2.0'')] ''objects'' = None
   \<and> ENTERPRISE_ATTCK_JSON (snd (load_data headless_provider plain True fresh_process)) = headless_doc
   \<and> fst (load_data headless_provider plain True fresh_process) = Inr ()
   \<and> stored plain Malware = None
   \<and> fst (collection Malware plain (snd (load_data headless_provider plain True fresh_process)))
        = Inl (KeyError ''objects'')"
proof -
  have a: "\<not> truthy (ENTERPRISE_ATTCK_JSON fresh_process)"
    by (simp add: fresh_process_def)
  have b: "mitre headless_provider (calls fresh_process) True
             (if subtechniques plain then Some True else None)
           = Inr (JObj [(''type'', JStr ''bundle''), (''spec_version'', JStr ''2.0'')])"
    by (simp add: headless_provider_def headless_doc_def)
  have c: "map_of [(''type'', JStr ''bundle''), (''spec_version'', JStr ''2.0'')] ''objects'' = None"
    by simp
  have g: "generated_attck_data headless_provider log True = Inr enrichment_doc" for log
    by (simp add: headless_provider_def)
  have s: "stored plain Malware = None"
    by (simp add: plain_def)
  show ?thesis
    using missing_objects_surface_at_access [OF a b c, of plain Malware] a c s
    by (simp add: g headless_doc_def)
qed

section \<open>The collection properties\<close>

lemma typed_node_cases:
  assumes "typed_node x"
  obtains kvs t where "x = JObj kvs" "subscript x ''type'' = Inr t" "keyword_arguments x = Inr kvs"
    "of_kind k x \<longleftrightarrow> t = JStr (type_tag k)"
  using assms by (cases x) (auto simp add: of_kind_def declared_type_def)

lemma append_entities_typed:
  "list_all typed_node xs \<Longrightarrow>
   \<exists>es. append_entities k doc xs acc n = (None, acc @ es, n + length es)
      \<and> map backing_node es = filter (of_kind k) xs
      \<and> map oid es = [n..<n + length es]
      \<and> (\<forall>e\<in>set es. kind e = k \<and> attck_obj e = doc)"
proof (induction xs arbitrary: acc n)
  case Nil
  then show ?case by simp
next
  case (Cons x xs)
  then have tx: "typed_node x" and txs: "list_all typed_node xs" by simp_all
  from tx obtain kvs t where x: "x = JObj kvs" "subscript x ''type'' = Inr t"
    "keyword_arguments x = Inr kvs" "of_kind k x \<longleftrightarrow> t = JStr (type_tag k)"
    by (rule typed_node_cases)
  show ?case
  proof (cases "of_kind k x")
    case False
    from Cons.IH [OF txs, of acc n] obtain es where
      "append_entities k doc xs acc n = (None, acc @ es, n + length es)"
      "map backing_node es = filter (of_kind k) xs" "map oid es = [n..<n + length es]"
      "\<forall>e\<in>set es. kind e = k \<and> attck_obj e = doc" by blast
    with False x(2,4) show ?thesis by auto
  next
    case True
    let ?e = "new_entity k n doc kvs"
    from Cons.IH [OF txs, of "acc @ [?e]" "Suc n"] obtain es where es:
      "append_entities k doc xs (acc @ [?e]) (Suc n) = (None, (acc @ [?e]) @ es, Suc n + length es)"
      "map backing_node es = filter (of_kind k) xs" "map oid es = [Suc n..<Suc n + length es]"
      "\<forall>e\<in>set es. kind e = k \<and> attck_obj e = doc" by blast
    have run: "append_entities k doc (x # xs) acc n = (None, acc @ (?e # es), n + length (?e # es))"
      using True x(2,3,4) es(1) by simp
    have "map backing_node (?e # es) = filter (of_kind k) (x # xs)"
      using True es(2) x(1) by (simp add: backing_node_def new_entity_def)
    moreover have "map oid (?e # es) = [n..<n + length (?e # es)]"
      using es(3) by (simp add: new_entity_def upt_rec)
    moreover have "\<forall>e\<in>set (?e # es). kind e = k \<and> attck_obj e = doc"
      using es(4) by (simp add: new_entity_def)
    ultimately show ?thesis using run by blast
  qed
qed

lemma append_entities_sound:
  "append_entities k doc xs acc n = (r, es, m) \<Longrightarrow>
   \<exists>es'. es = acc @ es' \<and> m = n + length es' \<and> map oid es' = [n..<m]
      \<and> (\<forall>e\<in>set es'. kind e = k \<and> attck_obj e = doc \<and> backing_node e \<in> set xs
            \<and> of_kind k (backing_node e))"
proof (induction xs arbitrary: acc n)
  case Nil
  then show ?case by simp
next
  case (Cons x xs)
  show ?case
  proof (cases "subscript x ''type''")
    case (Inl e)
    with Cons.prems show ?thesis by simp
  next
    case (Inr t)
    show ?thesis
    proof (cases "t = JStr (type_tag k)")
      case False
      with Inr Cons.prems have "append_entities k doc xs acc n = (r, es, m)" by simp
      from Cons.IH [OF this] show ?thesis by auto
    next
      case True
      show ?thesis
      proof (cases "keyword_arguments x")
        case (Inl e)
        with True Inr Cons.prems show ?thesis by simp
      next
        case kw: (Inr kvs)
        let ?e = "new_entity k n doc kvs"
        have x: "x = JObj kvs" using kw by (cases x) (auto split: if_splits)
        from True Inr kw Cons.prems
        have "append_entities k doc xs (acc @ [?e]) (Suc n) = (r, es, m)" by simp
        from Cons.IH [OF this] obtain es' where es': "es = (acc @ [?e]) @ es'"
          "m = Suc n + length es'" "map oid es' = [Suc n..<m]"
          "\<forall>e\<in>set es'. kind e = k \<and> attck_obj e = doc \<and> backing_node e \<in> set xs
              \<and> of_kind k (backing_node e)" by blast
        have "es = acc @ (?e # es')" using es'(1) by simp
        moreover have "m = n + length (?e # es')" using es'(2) by simp
        moreover have "map oid (?e # es') = [n..<m]"
          using es'(2,3) by (simp add: new_entity_def upt_rec)
        moreover have "\<forall>e\<in>set (?e # es'). kind e = k \<and> attck_obj e = doc
            \<and> backing_node e \<in> set (x # xs) \<and> of_kind k (backing_node e)"
          using es'(4) x True Inr
          by (auto simp add: new_entity_def backing_node_def of_kind_def declared_type_def)
        ultimately show ?thesis by blast
      qed
    qed
  qed
qed

lemma collection_stored:
  "stored self k = Some es \<Longrightarrow> collection k self p = (Inr es, self, p)"
  by (simp add: collection_def)

lemma collection_frame:
  "ENTERPRISE_ATTCK_JSON (snd (snd (collection k self p))) = ENTERPRISE_ATTCK_JSON p"
  "ENTERPRISE_GENERATED_DATA_JSON (snd (snd (collection k self p))) = ENTERPRISE_GENERATED_DATA_JSON p"
  "calls (snd (snd (collection k self p))) = calls p"
  "Configuration_attrs (snd (snd (collection k self p))) = Configuration_attrs p"
  "subtechniques (fst (snd (collection k self p))) = subtechniques self"
  by (simp_all add: collection_def split: option.splits sum.splits prod.splits)

lemma collection_other:
  "k' \<noteq> k \<Longrightarrow> stored (fst (snd (collection k self p))) k' = stored self k'"
  by (simp add: collection_def split: option.splits sum.splits prod.splits)

lemma collection_keeps_stored:
  "stored self k' = Some es \<Longrightarrow> stored (fst (snd (collection k self p))) k' = Some es"
  by (cases "k' = k") (simp_all add: collection_other collection_stored)

lemma nodes_iterate:
  "subscript doc ''objects'' = Inr v \<Longrightarrow> iterate v = Inr xs \<Longrightarrow> nodes doc = xs"
  by (simp add: nodes_def)

lemma collection_first:
  assumes "stored self k = None" and "collection k self p = (r, self', p')"
  shows "\<exists>es. stored self' k = Some es \<and> (r = Inr es \<or> (\<exists>e. r = Inl e))
      \<and> map oid es = [allocated p..<allocated p']
      \<and> (\<forall>e\<in>set es. kind e = k \<and> attck_obj e = ENTERPRISE_ATTCK_JSON p
            \<and> backing_node e \<in> set (nodes (ENTERPRISE_ATTCK_JSON p)) \<and> of_kind k (backing_node e))"
proof (cases "subscript (ENTERPRISE_ATTCK_JSON p) ''objects''")
  case (Inl e)
  with assms show ?thesis by (auto simp add: collection_def)
next
  case (Inr v)
  show ?thesis
  proof (cases "iterate v")
    case (Inl e)
    with Inr assms show ?thesis by (auto simp add: collection_def)
  next
    case it: (Inr xs)
    obtain a es m where ap: "append_entities k (ENTERPRISE_ATTCK_JSON p) xs [] (allocated p) = (a, es, m)"
      by (metis prod_cases3)
    from append_entities_sound [OF ap] have snd: "m = allocated p + length es"
      "map oid es = [allocated p..<m]"
      "\<forall>e\<in>set es. kind e = k \<and> attck_obj e = ENTERPRISE_ATTCK_JSON p \<and> backing_node e \<in> set xs
            \<and> of_kind k (backing_node e)" by auto
    have n: "nodes (ENTERPRISE_ATTCK_JSON p) = xs" using Inr it by (rule nodes_iterate)
    from assms Inr it ap have "stored self' k = Some es \<and> (r = Inr es \<or> (\<exists>e. r = Inl e))
        \<and> allocated p' = m"
      by (cases a) (auto simp add: collection_def)
    with snd n show ?thesis by auto
  qed
qed

lemma graph_document_nodes:
  assumes "graph_document doc"
  obtains xs where "subscript doc ''objects'' = Inr (JArr xs)" "nodes doc = xs" "list_all typed_node xs"
  using assms by (auto simp add: graph_document_def nodes_def split: sum.splits json.splits)

lemma graph_document_truthy: "graph_document doc \<Longrightarrow> truthy doc"
  by (auto simp add: graph_document_def split: sum.splits dest: truthy_subscript)

lemma collection_graph_document:
  assumes "graph_document (ENTERPRISE_ATTCK_JSON p)" and "stored self k = None"
  shows "\<exists>es. collection k self p
           = (Inr es, self\<lparr>stored := (stored self)(k \<mapsto> es)\<rparr>, p\<lparr>allocated := allocated p + length es\<rparr>)
      \<and> map backing_node es = filter (of_kind k) (nodes (ENTERPRISE_ATTCK_JSON p))
      \<and> map oid es = [allocated p..<allocated p + length es]
      \<and> (\<forall>e\<in>set es. kind e = k \<and> attck_obj e = ENTERPRISE_ATTCK_JSON p)"
proof -
  from assms(1) obtain xs where xs: "subscript (ENTERPRISE_ATTCK_JSON p) ''objects'' = Inr (JArr xs)"
    "nodes (ENTERPRISE_ATTCK_JSON p) = xs" "list_all typed_node xs"
    by (rule graph_document_nodes)
  from append_entities_typed [OF xs(3), of k "ENTERPRISE_ATTCK_JSON p" "[]" "allocated p"]
  obtain es where es:
    "append_entities k (ENTERPRISE_ATTCK_JSON p) xs [] (allocated p) = (None, es, allocated p + length es)"
    "map backing_node es = filter (of_kind k) xs" "map oid es = [allocated p..<allocated p + length es]"
    "\<forall>e\<in>set es. kind e = k \<and> attck_obj e = ENTERPRISE_ATTCK_JSON p" by auto
  have "collection k self p
     = (Inr es, self\<lparr>stored := (stored self)(k \<mapsto> es)\<rparr>, p\<lparr>allocated := allocated p + length es\<rparr>)"
    using assms(2) xs(1) es(1) by (simp add: collection_def)
  with es xs(2) show ?thesis by blast
qed

lemma run_from_Nil: "run_from ds s [] = s"
  by (simp add: run_from_def)

lemma run_from_snoc: "run_from ds s (ops @ [x]) = exec ds (run_from ds s ops) x"
  by (simp add: run_from_def)

lemma exec_keeps_stored:
  assumes "exec ds (p, objs) x = (p', objs')" and "i < length objs" and "stored (objs ! i) k = Some es"
  shows "i < length objs' \<and> stored (objs' ! i) k = Some es"
proof (cases x)
  case (New sub aj dj cp force)
  with assms show ?thesis
    by (auto simp add: nth_append split: prod.splits sum.splits)
next
  case (Update j)
  with assms show ?thesis by (auto split: if_splits)
next
  case (Get k' j)
  show ?thesis
  proof (cases "j < length objs")
    case False
    with Get assms show ?thesis by simp
  next
    case True
    with Get assms(1) have o: "objs' = objs[j := fst (snd (collection k' (objs ! j) p))]" by auto
    show ?thesis
    proof (cases "j = i")
      case True
      with o assms(2,3) show ?thesis by (simp add: collection_keeps_stored)
    next
      case False
      with o assms(2,3) show ?thesis by simp
    qed
  qed
qed

lemma run_from_keeps_stored:
  assumes "i < length objs" and "stored (objs ! i) k = Some es"
  shows "i < length (snd (run_from ds (p, objs) ops))
     \<and> stored (snd (run_from ds (p, objs) ops) ! i) k = Some es"
proof (induction ops rule: rev_induct)
  case Nil
  with assms show ?case by (simp add: run_from_Nil)
next
  case (snoc x ops)
  obtain q objs' where r: "run_from ds (p, objs) ops = (q, objs')"
    by (cases "run_from ds (p, objs) ops")
  obtain q' objs'' where e: "exec ds (q, objs') x = (q', objs'')"
    by (cases "exec ds (q, objs') x")
  from snoc r have "i < length objs'" "stored (objs' ! i) k = Some es" by simp_all
  from exec_keeps_stored [OF e this] show ?case
    by (simp add: run_from_snoc r e)
qed

lemma collection_result_stored:
  assumes "collection k self p = (Inr es, self', p')"
  shows "stored self' k = Some es"
proof (cases "stored self k")
  case None
  from collection_first [OF None assms] show ?thesis by auto
next
  case (Some a)
  with assms show ?thesis by (simp add: collection_stored)
qed

lemma techniques_plain_loaded:
  "techniques plain loaded = (Inr [first_technique], accessed, loaded\<lparr>allocated := 1\<rparr>)"
  by (simp add: techniques_def collection_def plain_def loaded_def cached_doc_def technique_node_def
      malware_node_def new_entity_def first_technique_def accessed_def)

section \<open>Claims about the collection properties\<close>




section \<open>Runs keep the stored lists in step with the document\<close>

lemma falsy_nodes: "\<not> truthy d \<Longrightarrow> nodes d = []"
  by (cases "subscript d ''objects''") (auto simp add: nodes_def dest: truthy_subscript)

lemma views_document:
  assumes "views p self" and "truthy (ENTERPRISE_ATTCK_JSON p) \<longrightarrow> ENTERPRISE_ATTCK_JSON p' = ENTERPRISE_ATTCK_JSON p"
  shows "views p' self"
proof (cases "truthy (ENTERPRISE_ATTCK_JSON p)")
  case True
  with assms show ?thesis by (simp add: views_def)
next
  case False
  then have "nodes (ENTERPRISE_ATTCK_JSON p) = []" by (rule falsy_nodes)
  with assms(1) have "\<forall>k es. stored self k = Some es \<longrightarrow> es = []"
    unfolding views_def by (metis empty_iff empty_set last_in_set)
  then show ?thesis unfolding views_def by (metis empty_iff empty_set)
qed

lemma views_new: "views p \<lparr>subtechniques = sub, stored = (\<lambda>k. None)\<rparr>"
  by (simp add: views_def)

lemma init_document:
  "truthy (ENTERPRISE_ATTCK_JSON p) \<Longrightarrow>
   ENTERPRISE_ATTCK_JSON (snd (init ds sub aj dj cp force p)) = ENTERPRISE_ATTCK_JSON p"
  by (simp add: init_snd load_data_document configure_frame)

lemma update_document:
  "truthy (ENTERPRISE_ATTCK_JSON p) \<Longrightarrow>
   ENTERPRISE_ATTCK_JSON (snd (update ds self p)) = ENTERPRISE_ATTCK_JSON p"
  by (simp add: update_def load_data_document)

lemma init_new_object:
  "init ds sub aj dj cp force p = (Inr self, p') \<Longrightarrow> self = \<lparr>subtechniques = sub, stored = (\<lambda>k. None)\<rparr>"
  using init_fst [of ds sub aj dj cp force p] by (auto split: sum.splits)

lemma collection_views:
  assumes "views p self" and "collection k self p = (r, self', p')"
  shows "views p' self'"
proof (cases "stored self k")
  case (Some es)
  with assms show ?thesis by (simp add: collection_stored)
next
  case None
  have d: "ENTERPRISE_ATTCK_JSON p' = ENTERPRISE_ATTCK_JSON p"
    using collection_frame(1) [of k self p] assms(2) by simp
  from collection_first [OF None assms(2)] obtain es where es: "stored self' k = Some es"
    "\<forall>e\<in>set es. kind e = k \<and> attck_obj e = ENTERPRISE_ATTCK_JSON p
       \<and> backing_node e \<in> set (nodes (ENTERPRISE_ATTCK_JSON p)) \<and> of_kind k (backing_node e)"
    by blast
  have o: "stored self' k' = stored self k'" if "k' \<noteq> k" for k'
    using collection_other [OF that, of self p] assms(2) by simp
  show ?thesis
    unfolding views_def
  proof (intro allI impI)
    fix k' es'
    assume s: "stored self' k' = Some es'"
    show "\<forall>e\<in>set es'. kind e = k' \<and> attck_obj e = ENTERPRISE_ATTCK_JSON p'
       \<and> backing_node e \<in> set (nodes (ENTERPRISE_ATTCK_JSON p')) \<and> of_kind k' (backing_node e)"
    proof (cases "k' = k")
      case True
      with s es d show ?thesis by simp
    next
      case False
      with s o have "stored self k' = Some es'" by simp
      with assms(1) d show ?thesis by (simp add: views_def)
    qed
  qed
qed

lemma exec_document:
  assumes "exec ds (p, objs) x = (p', objs')" and "truthy (ENTERPRISE_ATTCK_JSON p)"
  shows "ENTERPRISE_ATTCK_JSON p' = ENTERPRISE_ATTCK_JSON p"
proof (cases x)
  case (New sub aj dj cp force)
  with assms(1) have "p' = snd (init ds sub aj dj cp force p)"
    by (auto split: prod.splits sum.splits)
  with assms(2) show ?thesis by (simp add: init_document)
next
  case (Update i)
  with assms show ?thesis by (auto simp add: update_document split: if_splits)
next
  case (Get k i)
  with assms show ?thesis by (auto simp add: collection_frame split: if_splits)
qed

lemma exec_views:
  assumes "exec ds (p, objs) x = (p', objs')" and "\<forall>self\<in>set objs. views p self"
  shows "\<forall>self\<in>set objs'. views p' self"
proof -
  have d: "truthy (ENTERPRISE_ATTCK_JSON p) \<longrightarrow> ENTERPRISE_ATTCK_JSON p' = ENTERPRISE_ATTCK_JSON p"
    using exec_document [OF assms(1)] by simp
  have old: "\<forall>self\<in>set objs. views p' self"
    using assms(2) d by (blast intro: views_document)
  show ?thesis
  proof (cases x)
    case (New sub aj dj cp force)
    show ?thesis
    proof (cases "fst (init ds sub aj dj cp force p)")
      case (Inl e)
      with New assms(1) have "objs' = objs" by (auto split: prod.splits)
      with old show ?thesis by simp
    next
      case (Inr self)
      then have "init ds sub aj dj cp force p = (Inr self, snd (init ds sub aj dj cp force p))"
        by (simp add: prod_eq_iff)
      then have "self = \<lparr>subtechniques = sub, stored = (\<lambda>k. None)\<rparr>" by (rule init_new_object)
      moreover from Inr New assms(1) have "objs' = objs @ [self]" by (auto split: prod.splits)
      ultimately show ?thesis using old by (auto simp add: views_new)
    qed
  next
    case (Update i)
    with assms(1) have "objs' = objs" by (auto split: if_splits)
    with old show ?thesis by simp
  next
    case (Get k i)
    show ?thesis
    proof (cases "i < length objs")
      case False
      with Get assms show ?thesis by auto
    next
      case True
      obtain r self' q where c: "collection k (objs ! i) p = (r, self', q)"
        by (metis prod_cases3)
      with Get True assms(1) have e: "p' = q" "objs' = objs[i := self']" by auto
      from True assms(2) have "views p (objs ! i)" by simp
      from collection_views [OF this c] have "views p' self'" using e(1) by simp
      with old e(2) show ?thesis
        by (auto dest: set_update_subset_insert [THEN subsetD])
    qed
  qed
qed

lemma run_from_views:
  assumes "\<forall>self\<in>set objs. views p self"
  shows "\<forall>self\<in>set (snd (run_from ds (p, objs) ops)). views (fst (run_from ds (p, objs) ops)) self"
proof (induction ops rule: rev_induct)
  case Nil
  with assms show ?case by (simp add: run_from_Nil)
next
  case (snoc x ops)
  obtain q objs' where r: "run_from ds (p, objs) ops = (q, objs')"
    by (cases "run_from ds (p, objs) ops")
  obtain q' objs'' where e: "exec ds (q, objs') x = (q', objs'')"
    by (cases "exec ds (q, objs') x")
  from snoc r have "\<forall>self\<in>set objs'. views q self" by simp
  from exec_views [OF e this] show ?case
    by (simp add: run_from_snoc r e)
qed

lemma run_from_document:
  assumes "truthy (ENTERPRISE_ATTCK_JSON p)"
  shows "ENTERPRISE_ATTCK_JSON (fst (run_from ds (p, objs) ops)) = ENTERPRISE_ATTCK_JSON p"
proof (induction ops rule: rev_induct)
  case Nil
  show ?case by (simp add: run_from_Nil)
next
  case (snoc x ops)
  obtain q objs' where r: "run_from ds (p, objs) ops = (q, objs')"
    by (cases "run_from ds (p, objs) ops")
  obtain q' objs'' where e: "exec ds (q, objs') x = (q', objs'')"
    by (cases "exec ds (q, objs') x")
  from snoc r have q: "ENTERPRISE_ATTCK_JSON q = ENTERPRISE_ATTCK_JSON p" by simp
  with assms have "truthy (ENTERPRISE_ATTCK_JSON q)" by simp
  from exec_document [OF e this] q show ?case
    by (simp add: run_from_snoc r e)
qed

lemma nodes_truthy: "n \<in> set (nodes d) \<Longrightarrow> truthy d"
  by (rule ccontr) (simp add: falsy_nodes)

section \<open>The node index\<close>

lemma build_snoc:
  "build (ns @ [x]) = (case internal_id x of None \<Rightarrow> build ns | Some i \<Rightarrow> (build ns)(i \<mapsto> x))"
  by (cases "internal_id x") (simp_all add: build_def)

lemma build_sound:
  "build ns i = Some m \<Longrightarrow> m \<in> set ns \<and> internal_id m = Some i"
proof (induction ns arbitrary: m rule: rev_induct)
  case Nil
  then show ?case by (simp add: build_def)
next
  case (snoc x ns)
  then show ?case
    by (cases "internal_id x") (auto simp add: build_snoc split: if_splits)
qed

lemma build_complete:
  "n \<in> set ns \<Longrightarrow> internal_id n = Some i \<Longrightarrow> \<exists>m. build ns i = Some m"
proof (induction ns rule: rev_induct)
  case Nil
  then show ?case by simp
next
  case (snoc x ns)
  then show ?case
    by (cases "internal_id x") (auto simp add: build_snoc)
qed

lemma run_views:
  assumes "run ds ops = (p, objs)" and "self \<in> set objs"
  shows "views p self"
  using run_from_views [of "[]" fresh_process ds ops] assms by (simp add: run_def)

lemma run_singleton: "run ds [x] = exec ds (fresh_process, []) x"
  by (simp add: run_def run_from_def)

lemma of_kind_declared: "of_kind k n \<Longrightarrow> declared_type n = Some (JStr (type_tag k))"
  by (simp add: of_kind_def)

section \<open>Claims about the entities\<close>

text \<open>
  C5. The claim has a part that fails: looking the entity's internal id up with
  \<^verbatim>\<open>nodeById\<close> recovers a node whose declared type is the entity's kind. With two nodes of
  the same id and different types the index keeps the last one, so the technique entity
  made from the first node is sent to a malware node.
\<close>

theorem round_trip_counterexample:
  "ENTERPRISE_ATTCK_JSON (snd (init twin_provider False None None None False fresh_process)) = twin_doc
   \<and> fst (techniques plain (snd (init twin_provider False None None None False fresh_process)))
       = Inr [twin_entity]
   \<and> kind twin_entity = Technique
   \<and> internal_id (backing_node twin_entity) = Some (JStr ''x--7'')
   \<and> nodeById twin_doc (JStr ''x--7'') = Some twin_malware
   \<and> declared_type twin_malware = Some (JStr ''malware'')"
proof -
  let ?p = "\<lparr>ENTERPRISE_ATTCK_JSON = twin_doc, ENTERPRISE_GENERATED_DATA_JSON = enrichment_doc,
      Configuration_attrs = Map.empty, calls = [Mitre False None, Generated False],
      allocated = 0\<rparr>"
  have i: "init twin_provider False None None None False fresh_process = (Inr plain, ?p)"
    by (simp add: init_def configure_def load_data_def load_enterprise_def load_generated_def
        twin_provider_def fresh_process_def plain_def twin_doc_def enrichment_doc_def Let_def)
  have t: "fst (techniques plain ?p) = Inr [twin_entity]"
    by (simp add: techniques_def collection_def plain_def twin_doc_def twin_technique_def
        twin_malware_def new_entity_def twin_entity_def)
  have n: "nodeById twin_doc (JStr ''x--7'') = Some twin_malware"
    by (simp add: nodeById_def nodes_def twin_doc_def build_def internal_id_def
        twin_technique_def twin_malware_def)
  have "internal_id (backing_node twin_entity) = Some (JStr ''x--7'')"
    by (simp add: internal_id_def backing_node_def twin_entity_def)
  moreover have "declared_type twin_malware = Some (JStr ''malware'')"
    by (simp add: declared_type_def twin_malware_def)
  moreover have "kind twin_entity = Technique"
    by (simp add: twin_entity_def)
  ultimately show ?thesis using i t n by simp
qed

text \<open>
  C5 as amended: in every run, each entity that a collection property returns has the
  property's kind, its backing node is a node of the loaded document and declares the type
  of that kind; when the node has an internal id and every node of the document with that
  id declares the same type, \<^verbatim>\<open>nodeById\<close> of the id recovers a node of that type; and no
  later operation changes the document the node belongs to.
\<close>

theorem entities_view_their_nodes:
  assumes "run ds ops = (p, objs)" and "i < length objs"
    and "collection k (objs ! i) p = (Inr es, self', p')" and "e \<in> set es"
  shows "kind e = k
     \<and> declared_type (backing_node e) = Some (JStr (type_tag (kind e)))
     \<and> backing_node e \<in> set (nodes (ENTERPRISE_ATTCK_JSON p))
     \<and> (\<forall>j. internal_id (backing_node e) = Some j
            \<and> (\<forall>n\<in>set (nodes (ENTERPRISE_ATTCK_JSON p)).
                  internal_id n = Some j \<longrightarrow> declared_type n = declared_type (backing_node e))
          \<longrightarrow> (\<exists>n. nodeById (ENTERPRISE_ATTCK_JSON p) j = Some n
                 \<and> declared_type n = Some (JStr (type_tag (kind e)))))
     \<and> (\<forall>more. ENTERPRISE_ATTCK_JSON (fst (run_from ds (p', objs[i := self']) more))
                  = ENTERPRISE_ATTCK_JSON p)"
proof -
  let ?D = "ENTERPRISE_ATTCK_JSON p"
  have "views p (objs ! i)"
    by (rule run_views [OF assms(1) nth_mem [OF assms(2)]])
  then have "views p' self'"
    using assms(3) by (rule collection_views)
  moreover have "stored self' k = Some es"
    using assms(3) by (rule collection_result_stored)
  moreover have d: "ENTERPRISE_ATTCK_JSON p' = ?D"
    using collection_frame(1) [of k "objs ! i" p] assms(3) by simp
  ultimately have e: "kind e = k" "backing_node e \<in> set (nodes ?D)" "of_kind k (backing_node e)"
    using assms(4) by (auto simp add: views_def)
  from e(3) have t: "declared_type (backing_node e) = Some (JStr (type_tag k))"
    by (rule of_kind_declared)
  have rt: "\<exists>n. nodeById ?D j = Some n \<and> declared_type n = Some (JStr (type_tag (kind e)))"
    if j: "internal_id (backing_node e) = Some j"
      and same: "\<forall>n\<in>set (nodes ?D). internal_id n = Some j \<longrightarrow> declared_type n = declared_type (backing_node e)"
    for j
  proof -
    from build_complete [OF e(2) j] obtain m where m: "build (nodes ?D) j = Some m" by blast
    from build_sound [OF m] have "m \<in> set (nodes ?D)" "internal_id m = Some j" by simp_all
    with same have "declared_type m = declared_type (backing_node e)" by simp
    with m t e(1) show ?thesis by (simp add: nodeById_def)
  qed
  have "truthy ?D" using e(2) by (rule nodes_truthy)
  then have "ENTERPRISE_ATTCK_JSON (fst (run_from ds (p', objs[i := self']) more)) = ?D" for more
    using run_from_document [of p' ds "objs[i := self']" more] d by simp
  with e(1,2) t rt show ?thesis by blast
qed

theorem entities_view_their_nodes_witness:
  "run provider [New False None None None False] = (loaded, [plain])
   \<and> (0::nat) < length [plain]
   \<and> collection Technique ([plain] ! 0) loaded
       = (Inr [first_technique], accessed, loaded\<lparr>allocated := 1\<rparr>)
   \<and> first_technique \<in> set [first_technique]
   \<and> kind first_technique = Technique
   \<and> declared_type (backing_node first_technique) = Some (JStr ''attack-pattern'')
   \<and> backing_node first_technique \<in> set (nodes (ENTERPRISE_ATTCK_JSON loaded))
   \<and> internal_id (backing_node first_technique) = Some (JStr ''attack-pattern--01'')
   \<and> (\<exists>n. nodeById (ENTERPRISE_ATTCK_JSON loaded) (JStr ''attack-pattern--01'') = Some n
          \<and> declared_type n = Some (JStr ''attack-pattern''))
   \<and> ENTERPRISE_ATTCK_JSON
        (fst (run_from provider (loaded\<lparr>allocated := 1\<rparr>, [plain][0 := accessed]) [Update 0]))
       = ENTERPRISE_ATTCK_JSON loaded"
proof -
  have a: "run provider [New False None None None False] = (loaded, [plain])"
    by (simp add: run_singleton init_plain)
  have b: "(0::nat) < length [plain]" by simp
  have c: "collection Technique ([plain] ! 0) loaded
       = (Inr [first_technique], accessed, loaded\<lparr>allocated := 1\<rparr>)"
    using techniques_plain_loaded by (simp add: techniques_def)
  have d: "first_technique \<in> set [first_technique]" by simp
  have j: "internal_id (backing_node first_technique) = Some (JStr ''attack-pattern--01'')"
    by (simp add: internal_id_def backing_node_def first_technique_def)
  have ns: "nodes (ENTERPRISE_ATTCK_JSON loaded) = [technique_node, malware_node]"
    by (simp add: loaded_def cached_doc_def nodes_def)
  have same: "\<forall>n\<in>set (nodes (ENTERPRISE_ATTCK_JSON loaded)).
      internal_id n = Some (JStr ''attack-pattern--01'')
        \<longrightarrow> declared_type n = declared_type (backing_node first_technique)"
    by (simp add: ns internal_id_def declared_type_def technique_node_def malware_node_def
        backing_node_def first_technique_def)
  have k: "kind first_technique = Technique" by (simp add: first_technique_def)
  from entities_view_their_nodes [OF a b c d] j same k a b c d show ?thesis
    by simp
qed

section \<open>With a provider of graph documents the stored lists are projections\<close>

lemma projects_new: "projects p \<lparr>subtechniques = sub, stored = (\<lambda>k. None)\<rparr>"
  by (simp add: projects_def)

lemma projects_document:
  "ENTERPRISE_ATTCK_JSON p' = ENTERPRISE_ATTCK_JSON p \<Longrightarrow> projects p self \<Longrightarrow> projects p' self"
  by (simp add: projects_def)

lemma collection_projects:
  assumes "graph_document (ENTERPRISE_ATTCK_JSON p)" and "projects p self"
    and "collection k self p = (r, self', p')"
  shows "projects p' self'"
proof (cases "stored self k")
  case (Some es)
  with assms show ?thesis by (simp add: collection_stored)
next
  case None
  from collection_graph_document [OF assms(1) None] obtain es where es:
    "collection k self p
       = (Inr es, self\<lparr>stored := (stored self)(k \<mapsto> es)\<rparr>, p\<lparr>allocated := allocated p + length es\<rparr>)"
    "map backing_node es = filter (of_kind k) (nodes (ENTERPRISE_ATTCK_JSON p))"
    "map oid es = [allocated p..<allocated p + length es]"
    "\<forall>e\<in>set es. kind e = k \<and> attck_obj e = ENTERPRISE_ATTCK_JSON p" by blast
  from es(3) have "distinct (map oid es)" by simp
  with es(1,2,4) assms(2,3) show ?thesis
    by (auto simp add: projects_def)
qed

lemma load_data_graph_document:
  assumes "delivers_graph_documents ds"
    and "truthy (ENTERPRISE_ATTCK_JSON p) \<longrightarrow> graph_document (ENTERPRISE_ATTCK_JSON p)"
  shows "truthy (ENTERPRISE_ATTCK_JSON (snd (load_data ds self force p)))
           \<longrightarrow> graph_document (ENTERPRISE_ATTCK_JSON (snd (load_data ds self force p)))"
    and "fst (load_data ds self force p) = Inr u
           \<Longrightarrow> graph_document (ENTERPRISE_ATTCK_JSON (snd (load_data ds self force p)))"
proof -
  let ?m = "mitre ds (calls p) force (if subtechniques self then Some True else None)"
  show "truthy (ENTERPRISE_ATTCK_JSON (snd (load_data ds self force p)))
           \<longrightarrow> graph_document (ENTERPRISE_ATTCK_JSON (snd (load_data ds self force p)))"
    using assms
    by (cases ?m) (auto simp add: load_data_document delivers_graph_documents_def)
  assume ok: "fst (load_data ds self force p) = Inr u"
  show "graph_document (ENTERPRISE_ATTCK_JSON (snd (load_data ds self force p)))"
  proof (cases "truthy (ENTERPRISE_ATTCK_JSON p)")
    case True
    with assms(2) show ?thesis by (simp add: load_data_document)
  next
    case False
    with ok obtain d where "?m = Inr d"
      by (cases ?m) (auto simp add: load_data_def load_enterprise_def Let_def)
    with False assms(1) show ?thesis
      by (auto simp add: load_data_document delivers_graph_documents_def)
  qed
qed

lemma exec_consistent:
  assumes "delivers_graph_documents ds" and "consistent (p, objs)"
    and "exec ds (p, objs) x = (p', objs')"
  shows "consistent (p', objs')"
proof -
  let ?D = "ENTERPRISE_ATTCK_JSON p"
  from assms(2) have inv: "truthy ?D \<longrightarrow> graph_document ?D" "objs \<noteq> [] \<longrightarrow> graph_document ?D"
    "\<forall>self\<in>set objs. projects p self"
    by (simp_all add: consistent_def)
  show ?thesis
  proof (cases x)
    case (New sub aj dj cp force)
    let ?self = "\<lparr>subtechniques = sub, stored = (\<lambda>k. None)\<rparr>"
    let ?c = "configure aj dj cp force p"
    have p': "p' = snd (load_data ds ?self False ?c)"
      using New assms(3) by (auto simp add: init_snd [symmetric] split: prod.splits sum.splits)
    have c: "truthy (ENTERPRISE_ATTCK_JSON ?c) \<longrightarrow> graph_document (ENTERPRISE_ATTCK_JSON ?c)"
      using inv(1) by (simp add: configure_frame)
    have t: "truthy (ENTERPRISE_ATTCK_JSON p') \<longrightarrow> graph_document (ENTERPRISE_ATTCK_JSON p')"
      unfolding p' using assms(1) c by (rule load_data_graph_document(1))
    have old: "\<forall>self\<in>set objs. projects p' self"
    proof
      fix self assume s: "self \<in> set objs"
      then have "graph_document ?D" using inv(2) by auto
      then have "truthy ?D" by (rule graph_document_truthy)
      then have "ENTERPRISE_ATTCK_JSON p' = ?D"
        using exec_document [OF assms(3)] by simp
      with inv(3) s show "projects p' self" by (blast intro: projects_document)
    qed
    show ?thesis
    proof (cases "fst (init ds sub aj dj cp force p)")
      case (Inl e)
      with New assms(3) have o: "objs' = objs" by (auto split: prod.splits)
      have "objs \<noteq> [] \<longrightarrow> graph_document (ENTERPRISE_ATTCK_JSON p')"
      proof
        assume "objs \<noteq> []"
        with inv(2) have "graph_document ?D" by simp
        then have "truthy ?D" by (rule graph_document_truthy)
        then have "ENTERPRISE_ATTCK_JSON p' = ?D"
          using exec_document [OF assms(3)] by simp
        with \<open>graph_document ?D\<close> show "graph_document (ENTERPRISE_ATTCK_JSON p')" by simp
      qed
      with t old o show ?thesis by (simp add: consistent_def)
    next
      case (Inr self)
      then have "init ds sub aj dj cp force p = (Inr self, snd (init ds sub aj dj cp force p))"
        by (simp add: prod_eq_iff)
      then have self: "self = ?self" by (rule init_new_object)
      from Inr New assms(3) have o: "objs' = objs @ [self]" by (auto split: prod.splits)
      from Inr obtain u where "fst (load_data ds ?self False ?c) = Inr u"
        by (auto simp add: init_fst split: sum.splits)
      from load_data_graph_document(2) [OF assms(1) c this]
      have "graph_document (ENTERPRISE_ATTCK_JSON p')" by (simp add: p')
      with t old o self show ?thesis by (simp add: consistent_def projects_new)
    qed
  next
    case (Update i)
    show ?thesis
    proof (cases "i < length objs")
      case False
      with Update assms(2,3) show ?thesis by simp
    next
      case True
      then have "objs \<noteq> []" by auto
      with inv(2) have g: "graph_document ?D" by simp
      then have "truthy ?D" by (rule graph_document_truthy)
      then have d: "ENTERPRISE_ATTCK_JSON p' = ?D"
        using exec_document [OF assms(3)] by simp
      from Update True assms(3) have "objs' = objs" by simp
      with d g inv(3) show ?thesis
        by (auto simp add: consistent_def intro: projects_document)
    qed
  next
    case (Get k i)
    show ?thesis
    proof (cases "i < length objs")
      case False
      with Get assms(2,3) show ?thesis by simp
    next
      case True
      then have "objs \<noteq> []" by auto
      with inv(2) have g: "graph_document ?D" by simp
      obtain r self' q where c: "collection k (objs ! i) p = (r, self', q)"
        by (metis prod_cases3)
      with Get True assms(3) have e: "p' = q" "objs' = objs[i := self']" by auto
      have d: "ENTERPRISE_ATTCK_JSON p' = ?D"
        using collection_frame(1) [of k "objs ! i" p] c e(1) by simp
      from True inv(3) have "projects p (objs ! i)" by simp
      from collection_projects [OF g this c] have n: "projects p' self'" using e(1) by simp
      have "\<forall>self\<in>set objs'. projects p' self"
      proof
        fix self assume "self \<in> set objs'"
        then have "self = self' \<or> self \<in> set objs"
          using e(2) set_update_subset_insert [of objs i self'] by auto
        with n inv(3) d show "projects p' self" by (blast intro: projects_document)
      qed
      with d g show ?thesis by (simp add: consistent_def)
    qed
  qed
qed

lemma run_consistent:
  assumes "delivers_graph_documents ds"
  shows "consistent (run ds ops)"
proof (induction ops rule: rev_induct)
  case Nil
  show ?case
    by (simp add: run_def run_from_Nil consistent_def fresh_process_def)
next
  case (snoc x ops)
  obtain q objs' where r: "run ds ops = (q, objs')"
    by (cases "run ds ops")
  obtain q' objs'' where e: "exec ds (q, objs') x = (q', objs'')"
    by (cases "exec ds (q, objs') x")
  from snoc r have "consistent (q, objs')" by simp
  from exec_consistent [OF assms this e] have "consistent (q', objs'')" .
  moreover have "run ds (ops @ [x]) = (q', objs'')"
    using r e by (simp add: run_def run_from_snoc)
  ultimately show ?case by simp
qed

section \<open>The claim about what the collection properties return\<close>

lemma provider_delivers: "delivers_graph_documents provider"
  by (simp add: delivers_graph_documents_def provider_def graph_document_def cached_doc_def
      remote_doc_def expanded_doc_def technique_node_def subtechnique_node_def malware_node_def)

text \<open>
  C2. The claim: for every loaded graph document each collection property returns one
  entity per node of its type. It fails for a node that has a field named
  \<^verbatim>\<open>attck_obj\<close>: the node's fields are passed as keyword arguments next to the keyword
  \<^verbatim>\<open>attck_obj\<close>, so the call raises TypeError and no entity is returned for the node.
\<close>

theorem attck_obj_field_counterexample:
  "fst (init colliding_provider False None None None False fresh_process) = Inr plain
   \<and> ENTERPRISE_ATTCK_JSON (snd (init colliding_provider False None None None False fresh_process))
        = colliding_doc
   \<and> filter (of_kind Technique) (nodes colliding_doc) = [colliding_node]
   \<and> fst (techniques plain (snd (init colliding_provider False None None None False fresh_process)))
        = Inl TypeError"
proof -
  let ?p = "\<lparr>ENTERPRISE_ATTCK_JSON = colliding_doc, ENTERPRISE_GENERATED_DATA_JSON = enrichment_doc,
      Configuration_attrs = Map.empty, calls = [Mitre False None, Generated False],
      allocated = 0\<rparr>"
  have i: "init colliding_provider False None None None False fresh_process = (Inr plain, ?p)"
    by (simp add: init_def configure_def load_data_def load_enterprise_def load_generated_def
        colliding_provider_def fresh_process_def plain_def colliding_doc_def enrichment_doc_def Let_def)
  have n: "filter (of_kind Technique) (nodes colliding_doc) = [colliding_node]"
    by (simp add: nodes_def colliding_doc_def of_kind_def declared_type_def colliding_node_def)
  have "fst (techniques plain ?p) = Inl TypeError"
    by (simp add: techniques_def collection_def plain_def colliding_doc_def colliding_node_def)
  with i n show ?thesis by simp
qed

text \<open>
  C2 as amended: when the provider delivers graph documents (a dict whose \<^verbatim>\<open>objects\<close> is a
  list of dict nodes, each with a \<^verbatim>\<open>type\<close> and none with a field named \<^verbatim>\<open>attck_obj\<close>),
  then in every run, on every object, each of the six collection properties (\<open>collection k\<close>
  for the six kinds) returns exactly one entity object for each node of the loaded
  document whose declared type is the kind's type string, in document order, and nothing
  for the other nodes.
\<close>

theorem collections_project_nodes:
  assumes "delivers_graph_documents ds" and "run ds ops = (p, objs)" and "i < length objs"
  shows "\<exists>es. fst (collection k (objs ! i) p) = Inr es
      \<and> map backing_node es = filter (of_kind k) (nodes (ENTERPRISE_ATTCK_JSON p))
      \<and> distinct (map oid es)
      \<and> (\<forall>e\<in>set es. kind e = k)"
proof -
  have c: "consistent (p, objs)"
    using run_consistent [OF assms(1), of ops] assms(2) by simp
  from assms(3) have "objs \<noteq> []" by auto
  with c have g: "graph_document (ENTERPRISE_ATTCK_JSON p)"
    by (simp add: consistent_def)
  from c assms(3) have pr: "projects p (objs ! i)"
    by (simp add: consistent_def)
  show ?thesis
  proof (cases "stored (objs ! i) k")
    case (Some es)
    with pr show ?thesis
      by (auto simp add: collection_stored projects_def)
  next
    case None
    from collection_graph_document [OF g None] obtain es where
      "collection k (objs ! i) p
         = (Inr es, (objs ! i)\<lparr>stored := (stored (objs ! i))(k \<mapsto> es)\<rparr>,
            p\<lparr>allocated := allocated p + length es\<rparr>)"
      "map backing_node es = filter (of_kind k) (nodes (ENTERPRISE_ATTCK_JSON p))"
      "map oid es = [allocated p..<allocated p + length es]"
      "\<forall>e\<in>set es. kind e = k \<and> attck_obj e = ENTERPRISE_ATTCK_JSON p" by blast
    moreover from this(3) have "distinct (map oid es)" by simp
    ultimately show ?thesis by auto
  qed
qed

theorem collections_project_nodes_witness:
  "delivers_graph_documents provider
   \<and> run provider [New False None None None False] = (loaded, [plain])
   \<and> (0::nat) < length [plain]
   \<and> fst (collection Technique ([plain] ! 0) loaded) = Inr [first_technique]
   \<and> map backing_node [first_technique]
       = filter (of_kind Technique) (nodes (ENTERPRISE_ATTCK_JSON loaded))
   \<and> filter (of_kind Technique) (nodes (ENTERPRISE_ATTCK_JSON loaded)) = [technique_node]"
proof -
  have a: "run provider [New False None None None False] = (loaded, [plain])"
    by (simp add: run_singleton init_plain)
  have b: "(0::nat) < length [plain]" by simp
  have c: "fst (collection Technique ([plain] ! 0) loaded) = Inr [first_technique]"
    using techniques_plain_loaded by (simp add: techniques_def)
  have n: "filter (of_kind Technique) (nodes (ENTERPRISE_ATTCK_JSON loaded)) = [technique_node]"
    by (simp add: loaded_def nodes_def cached_doc_def of_kind_def declared_type_def
        technique_node_def malware_node_def)
  from collections_project_nodes [OF provider_delivers a b, of Technique] a b c n provider_delivers
  show ?thesis by auto
qed

section \<open>Runs in which both documents are loaded\<close>

lemma init_loaded:
  assumes "truthy (ENTERPRISE_ATTCK_JSON p)" and "truthy (ENTERPRISE_GENERATED_DATA_JSON p)"
  shows "init ds sub aj dj cp force p
           = (Inr \<lparr>subtechniques = sub, stored = (\<lambda>k. None)\<rparr>, configure aj dj cp force p)"
proof -
  have "load_data ds \<lparr>subtechniques = sub, stored = (\<lambda>k. None)\<rparr> False (configure aj dj cp force p)
          = (Inr (), configure aj dj cp force p)"
    using assms by (intro load_data_loaded) (simp_all add: configure_frame)
  then show ?thesis by (simp add: init_def)
qed

lemma exec_loaded:
  assumes "truthy (ENTERPRISE_ATTCK_JSON p)" and "truthy (ENTERPRISE_GENERATED_DATA_JSON p)"
    and "exec ds (p, objs) x = (p', objs')"
  shows "ENTERPRISE_ATTCK_JSON p' = ENTERPRISE_ATTCK_JSON p
     \<and> ENTERPRISE_GENERATED_DATA_JSON p' = ENTERPRISE_GENERATED_DATA_JSON p
     \<and> filter fetch (calls p') = filter fetch (calls p)"
proof (cases x)
  case (New sub aj dj cp force)
  with assms(3) have "p' = configure aj dj cp force p"
    by (simp add: init_loaded [OF assms(1,2)])
  then show ?thesis by (simp add: configure_frame configure_calls)
next
  case (Update i)
  with assms show ?thesis
    by (auto simp add: update_def load_data_loaded split: if_splits)
next
  case (Get k i)
  with assms(3) show ?thesis
    by (auto simp add: collection_frame split: if_splits)
qed

lemma run_from_loaded:
  assumes "truthy (ENTERPRISE_ATTCK_JSON p)" and "truthy (ENTERPRISE_GENERATED_DATA_JSON p)"
  shows "ENTERPRISE_ATTCK_JSON (fst (run_from ds (p, objs) ops)) = ENTERPRISE_ATTCK_JSON p
     \<and> ENTERPRISE_GENERATED_DATA_JSON (fst (run_from ds (p, objs) ops)) = ENTERPRISE_GENERATED_DATA_JSON p
     \<and> filter fetch (calls (fst (run_from ds (p, objs) ops))) = filter fetch (calls p)"
proof (induction ops rule: rev_induct)
  case Nil
  show ?case by (simp add: run_from_Nil)
next
  case (snoc x ops)
  obtain q objs' where r: "run_from ds (p, objs) ops = (q, objs')"
    by (cases "run_from ds (p, objs) ops")
  obtain q' objs'' where e: "exec ds (q, objs') x = (q', objs'')"
    by (cases "exec ds (q, objs') x")
  from snoc r have q: "ENTERPRISE_ATTCK_JSON q = ENTERPRISE_ATTCK_JSON p"
    "ENTERPRISE_GENERATED_DATA_JSON q = ENTERPRISE_GENERATED_DATA_JSON p"
    "filter fetch (calls q) = filter fetch (calls p)" by simp_all
  with assms have "truthy (ENTERPRISE_ATTCK_JSON q)" "truthy (ENTERPRISE_GENERATED_DATA_JSON q)"
    by simp_all
  from exec_loaded [OF this e] q show ?case
    by (simp add: run_from_snoc r e)
qed

section \<open>The claim about construction with the force option\<close>






section \<open>The claim about reading techniques twice\<close>

lemma collection_stores:
  assumes "collection k self p = (r, self', p')"
  shows "\<exists>es. stored self' k = Some es \<and> (\<forall>es'. r = Inr es' \<longrightarrow> es' = es)"
proof (cases "stored self k")
  case None
  from collection_first [OF None assms] show ?thesis by auto
next
  case (Some es)
  with assms show ?thesis by (auto simp add: collection_stored)
qed

lemma run_collection_returns:
  assumes "delivers_graph_documents ds" and "run ds pre = (p, objs)" and "i < length objs"
  shows "\<exists>es. fst (collection k (objs ! i) p) = Inr es"
proof -
  have c: "consistent (p, objs)"
    using run_consistent [OF assms(1), of pre] assms(2) by simp
  from assms(3) have "objs \<noteq> []" by auto
  with c have g: "graph_document (ENTERPRISE_ATTCK_JSON p)"
    by (simp add: consistent_def)
  show ?thesis
  proof (cases "stored (objs ! i) k")
    case (Some es)
    then show ?thesis by (simp add: collection_stored)
  next
    case None
    from collection_graph_document [OF g None] show ?thesis by auto
  qed
qed

lemma init_headless:
  "init headless_provider False None None None False fresh_process = (Inr plain, headless_loaded)"
  by (simp add: init_def configure_def load_data_def load_enterprise_def load_generated_def
      headless_provider_def fresh_process_def plain_def headless_loaded_def headless_doc_def
      enrichment_doc_def Let_def)

text \<open>
  C4. The claim: on every object two reads of \<^verbatim>\<open>techniques\<close> give the same sequence. It
  fails when the first read raises: the list is bound to the object before it is filled, so
  after \<^verbatim>\<open>Attck()\<close> on a document without \<^verbatim>\<open>objects\<close> the first read raises KeyError and the
  second returns an empty list.
\<close>

theorem techniques_twice_counterexample:
  "init headless_provider False None None None False fresh_process = (Inr plain, headless_loaded)
   \<and> techniques plain headless_loaded = (Inl (KeyError ''objects''), emptied, headless_loaded)
   \<and> techniques emptied headless_loaded = (Inr [], emptied, headless_loaded)"
proof -
  have "techniques plain headless_loaded = (Inl (KeyError ''objects''), emptied, headless_loaded)"
    by (simp add: techniques_def collection_def plain_def headless_loaded_def headless_doc_def
        emptied_def)
  moreover have "techniques emptied headless_loaded = (Inr [], emptied, headless_loaded)"
    by (simp add: techniques_def collection_def emptied_def)
  ultimately show ?thesis using init_headless by simp
qed

text \<open>
  C4 as amended: when a read of \<^verbatim>\<open>techniques\<close> on an object returns a sequence, every later
  read on that object returns the same sequence (same identities, same attribute values),
  whatever operations of the program run in between; and in a run whose provider delivers
  graph documents the read does return a sequence. What a read gives after one that raised
  is left open.
\<close>

theorem techniques_idempotent:
  assumes "i < length objs"
    and "techniques (objs ! i) p = (r, self', p')"
    and "run_from ds (p', objs[i := self']) ops = (q, objs')"
  shows "i < length objs'
     \<and> (\<forall>es. r = Inr es \<longrightarrow> techniques (objs' ! i) q = (Inr es, objs' ! i, q))
     \<and> (delivers_graph_documents ds \<and> (\<exists>pre. run ds pre = (p, objs)) \<longrightarrow> (\<exists>es. r = Inr es))"
proof -
  from assms(2) obtain es0 where es0: "stored self' Technique = Some es0"
    "\<forall>es'. r = Inr es' \<longrightarrow> es' = es0"
    unfolding techniques_def by (blast dest: collection_stores)
  from es0(1) have "stored (objs[i := self'] ! i) Technique = Some es0"
    using assms(1) by simp
  from run_from_keeps_stored [OF _ this, of ds p' ops] assms(1,3)
  have k: "i < length objs'" "stored (objs' ! i) Technique = Some es0" by simp_all
  have "techniques (objs' ! i) q = (Inr es, objs' ! i, q)" if "r = Inr es" for es
    using that es0(2) k(2) by (simp add: techniques_def collection_stored)
  moreover have "\<exists>es. r = Inr es"
    if "delivers_graph_documents ds" and "\<exists>pre. run ds pre = (p, objs)"
  proof -
    from that(2) obtain pre where "run ds pre = (p, objs)" by blast
    from run_collection_returns [OF that(1) this assms(1), of Technique] assms(2)
    show ?thesis by (simp add: techniques_def)
  qed
  ultimately show ?thesis using k(1) by blast
qed

theorem techniques_idempotent_witness:
  "(0::nat) < length [plain]
   \<and> techniques ([plain] ! 0) loaded = (Inr [first_technique], accessed, loaded\<lparr>allocated := 1\<rparr>)
   \<and> run_from provider (loaded\<lparr>allocated := 1\<rparr>, [plain][0 := accessed])
        [New True None None None False]
       = (loaded\<lparr>allocated := 1\<rparr>, [accessed, expanding])
   \<and> delivers_graph_documents provider
   \<and> run provider [New False None None None False] = (loaded, [plain])
   \<and> techniques ([accessed, expanding] ! 0) (loaded\<lparr>allocated := 1\<rparr>)
       = (Inr [first_technique], [accessed, expanding] ! 0, loaded\<lparr>allocated := 1\<rparr>)"
proof -
  have a: "(0::nat) < length [plain]" by simp
  have b: "techniques ([plain] ! 0) loaded = (Inr [first_technique], accessed, loaded\<lparr>allocated := 1\<rparr>)"
    using techniques_plain_loaded by simp
  have "init provider True None None None False (loaded\<lparr>allocated := 1\<rparr>)
      = (Inr expanding, loaded\<lparr>allocated := 1\<rparr>)"
    by (simp add: init_def configure_def load_data_loaded loaded_truthy expanding_def)
  then have c: "run_from provider (loaded\<lparr>allocated := 1\<rparr>, [plain][0 := accessed])
        [New True None None None False]
       = (loaded\<lparr>allocated := 1\<rparr>, [accessed, expanding])"
    by (simp add: run_from_def)
  have d: "run provider [New False None None None False] = (loaded, [plain])"
    by (simp add: run_singleton init_plain)
  from techniques_idempotent [OF a b c] a b c d provider_delivers show ?thesis by simp
qed

section \<open>The claim about the shared documents\<close>

lemma load_data_nonempty:
  assumes "delivers_nonempty_documents ds" and "fst (load_data ds self force p) = Inr u"
  shows "truthy (ENTERPRISE_ATTCK_JSON (snd (load_data ds self force p)))
     \<and> truthy (ENTERPRISE_GENERATED_DATA_JSON (snd (load_data ds self force p)))"
proof -
  let ?m = "mitre ds (calls p) force (if subtechniques self then Some True else None)"
  let ?e = "load_enterprise ds self force p"
  from assms(2) have ok: "fst ?e = Inr ()" and g: "fst (load_generated ds force (snd ?e)) = Inr u"
    by (auto simp add: load_data_def split: prod.splits sum.splits)
  have d: "truthy (ENTERPRISE_ATTCK_JSON (snd ?e))"
    using ok assms(1)
    by (cases ?m) (auto simp add: load_enterprise_def Let_def delivers_nonempty_documents_def
        split: if_splits)
  have "truthy (ENTERPRISE_GENERATED_DATA_JSON (snd (load_generated ds force (snd ?e))))"
    using g assms(1)
    by (cases "generated_attck_data ds (calls (snd ?e)) force")
       (auto simp add: load_generated_def Let_def delivers_nonempty_documents_def split: if_splits)
  with d ok show ?thesis
    by (simp add: load_data_snd load_generated_frame)
qed

lemma exec_nonempty:
  assumes "delivers_nonempty_documents ds"
    and "objs \<noteq> [] \<longrightarrow> truthy (ENTERPRISE_ATTCK_JSON p) \<and> truthy (ENTERPRISE_GENERATED_DATA_JSON p)"
    and "exec ds (p, objs) x = (p', objs')"
  shows "objs' \<noteq> [] \<longrightarrow> truthy (ENTERPRISE_ATTCK_JSON p') \<and> truthy (ENTERPRISE_GENERATED_DATA_JSON p')"
proof (cases "objs = []")
  case False
  with assms(2) have t: "truthy (ENTERPRISE_ATTCK_JSON p)" "truthy (ENTERPRISE_GENERATED_DATA_JSON p)"
    by simp_all
  from exec_loaded [OF t assms(3)] t show ?thesis by simp
next
  case True
  show ?thesis
  proof (cases x)
    case (New sub aj dj cp force)
    let ?self = "\<lparr>subtechniques = sub, stored = (\<lambda>k. None)\<rparr>"
    let ?c = "configure aj dj cp force p"
    show ?thesis
    proof (cases "fst (init ds sub aj dj cp force p)")
      case (Inl e)
      with New True assms(3) show ?thesis by (auto split: prod.splits)
    next
      case (Inr self)
      then obtain u where "fst (load_data ds ?self False ?c) = Inr u"
        by (auto simp add: init_fst split: sum.splits)
      from load_data_nonempty [OF assms(1) this]
      have "truthy (ENTERPRISE_ATTCK_JSON (snd (init ds sub aj dj cp force p)))
         \<and> truthy (ENTERPRISE_GENERATED_DATA_JSON (snd (init ds sub aj dj cp force p)))"
        by (simp add: init_snd)
      moreover from New assms(3) have "p' = snd (init ds sub aj dj cp force p)"
        by (auto split: prod.splits sum.splits)
      ultimately show ?thesis by simp
    qed
  next
    case (Update i)
    with True assms(3) show ?thesis by simp
  next
    case (Get k i)
    with True assms(3) show ?thesis by simp
  qed
qed

lemma run_nonempty:
  assumes "delivers_nonempty_documents ds"
  shows "snd (run ds ops) \<noteq> [] \<longrightarrow>
     truthy (ENTERPRISE_ATTCK_JSON (fst (run ds ops)))
     \<and> truthy (ENTERPRISE_GENERATED_DATA_JSON (fst (run ds ops)))"
proof (induction ops rule: rev_induct)
  case Nil
  show ?case by (simp add: run_def run_from_Nil)
next
  case (snoc x ops)
  obtain q objs' where r: "run ds ops = (q, objs')"
    by (cases "run ds ops")
  obtain q' objs'' where e: "exec ds (q, objs') x = (q', objs'')"
    by (cases "exec ds (q, objs') x")
  from snoc r have "objs' \<noteq> [] \<longrightarrow>
     truthy (ENTERPRISE_ATTCK_JSON q) \<and> truthy (ENTERPRISE_GENERATED_DATA_JSON q)" by simp
  from exec_nonempty [OF assms this e]
  have "objs'' \<noteq> [] \<longrightarrow>
     truthy (ENTERPRISE_ATTCK_JSON q') \<and> truthy (ENTERPRISE_GENERATED_DATA_JSON q')" .
  moreover have "run ds (ops @ [x]) = (q', objs'')"
    using r e by (simp add: run_def run_from_snoc)
  ultimately show ?case by simp
qed

lemma provider_nonempty: "delivers_nonempty_documents provider"
  by (simp add: delivers_nonempty_documents_def provider_def cached_doc_def remote_doc_def
      expanded_doc_def enrichment_doc_def)

text \<open>
  C9. The claim: once an object has loaded the documents, a later construction performs no
  fetch. It fails when a loaded document is empty: the load step tests the truth value of
  the class attribute, so after \<^verbatim>\<open>Attck()\<close> with a provider whose enrichment document is
  an empty dict, the next construction requests the enrichment document again.
\<close>

theorem shared_documents_counterexample:
  "fst (init hollow_provider False None None None False fresh_process) = Inr plain
   \<and> calls (snd (init hollow_provider False None None None False fresh_process))
       = [Mitre False None, Generated False]
   \<and> ENTERPRISE_GENERATED_DATA_JSON
        (snd (init hollow_provider False None None None False fresh_process)) = JObj []
   \<and> calls (snd (init hollow_provider True None None None False
                 (snd (init hollow_provider False None None None False fresh_process))))
       = [Mitre False None, Generated False, Generated False]"
proof -
  let ?p = "\<lparr>ENTERPRISE_ATTCK_JSON = cached_doc, ENTERPRISE_GENERATED_DATA_JSON = JObj [],
      Configuration_attrs = Map.empty, calls = [Mitre False None, Generated False],
      allocated = 0\<rparr>"
  have i: "init hollow_provider False None None None False fresh_process = (Inr plain, ?p)"
    by (simp add: init_def configure_def load_data_def load_enterprise_def load_generated_def
        hollow_provider_def fresh_process_def plain_def cached_doc_def Let_def)
  have "calls (snd (init hollow_provider True None None None False ?p))
       = [Mitre False None, Generated False, Generated False]"
    by (simp add: init_snd load_data_calls configure_calls configure_frame
        load_enterprise_def hollow_provider_def cached_doc_def)
  with i show ?thesis by simp
qed

text \<open>
  C9 as amended: the documents are class-level state. Once an object has been constructed
  and both class attributes hold a non-empty (true) document, which is so whenever the
  provider never returns an empty document, constructing another object succeeds whatever
  its options are, keeps both documents, and adds no request to the provider; and the same
  holds after any further operations, so for every object constructed later.
\<close>

theorem later_objects_share_documents:
  assumes "run ds pre = (p, objs)" and "objs \<noteq> []"
  shows "(delivers_nonempty_documents ds \<longrightarrow>
            truthy (ENTERPRISE_ATTCK_JSON p) \<and> truthy (ENTERPRISE_GENERATED_DATA_JSON p))
     \<and> (truthy (ENTERPRISE_ATTCK_JSON p) \<and> truthy (ENTERPRISE_GENERATED_DATA_JSON p) \<longrightarrow>
          fst (init ds sub aj dj cp force p) = Inr \<lparr>subtechniques = sub, stored = (\<lambda>k. None)\<rparr>
          \<and> ENTERPRISE_ATTCK_JSON (snd (init ds sub aj dj cp force p)) = ENTERPRISE_ATTCK_JSON p
          \<and> ENTERPRISE_GENERATED_DATA_JSON (snd (init ds sub aj dj cp force p))
                = ENTERPRISE_GENERATED_DATA_JSON p
          \<and> filter fetch (calls (snd (init ds sub aj dj cp force p))) = filter fetch (calls p)
          \<and> (\<forall>objs' ops.
                ENTERPRISE_ATTCK_JSON (fst (run_from ds (p, objs') ops)) = ENTERPRISE_ATTCK_JSON p
                \<and> ENTERPRISE_GENERATED_DATA_JSON (fst (run_from ds (p, objs') ops))
                    = ENTERPRISE_GENERATED_DATA_JSON p
                \<and> filter fetch (calls (fst (run_from ds (p, objs') ops))) = filter fetch (calls p)))"
proof -
  have "truthy (ENTERPRISE_ATTCK_JSON p) \<and> truthy (ENTERPRISE_GENERATED_DATA_JSON p)"
    if "delivers_nonempty_documents ds"
    using run_nonempty [OF that, of pre] assms by simp
  moreover have "fst (init ds sub aj dj cp force p) = Inr \<lparr>subtechniques = sub, stored = (\<lambda>k. None)\<rparr>
          \<and> ENTERPRISE_ATTCK_JSON (snd (init ds sub aj dj cp force p)) = ENTERPRISE_ATTCK_JSON p
          \<and> ENTERPRISE_GENERATED_DATA_JSON (snd (init ds sub aj dj cp force p))
                = ENTERPRISE_GENERATED_DATA_JSON p
          \<and> filter fetch (calls (snd (init ds sub aj dj cp force p))) = filter fetch (calls p)
          \<and> (\<forall>objs' ops.
                ENTERPRISE_ATTCK_JSON (fst (run_from ds (p, objs') ops)) = ENTERPRISE_ATTCK_JSON p
                \<and> ENTERPRISE_GENERATED_DATA_JSON (fst (run_from ds (p, objs') ops))
                    = ENTERPRISE_GENERATED_DATA_JSON p
                \<and> filter fetch (calls (fst (run_from ds (p, objs') ops))) = filter fetch (calls p))"
    if t: "truthy (ENTERPRISE_ATTCK_JSON p)" "truthy (ENTERPRISE_GENERATED_DATA_JSON p)"
    using run_from_loaded [OF t, of ds]
    by (simp add: init_loaded [OF t] configure_frame configure_calls)
  ultimately show ?thesis by blast
qed

theorem later_objects_share_documents_witness:
  "run provider [New False None None None False] = (loaded, [plain])
   \<and> [plain] \<noteq> []
   \<and> delivers_nonempty_documents provider
   \<and> truthy (ENTERPRISE_ATTCK_JSON loaded) \<and> truthy (ENTERPRISE_GENERATED_DATA_JSON loaded)
   \<and> fst (init provider True None None None True loaded) = Inr expanding
   \<and> ENTERPRISE_ATTCK_JSON (snd (init provider True None None None True loaded)) = cached_doc
   \<and> filter fetch (calls (snd (init provider True None None None True loaded)))
       = [Mitre False None, Generated False]
   \<and> filter fetch (calls (fst (run_from provider (loaded, [plain])
         [New True None None None True, Update 1, New False (Some ''enterprise.json'') None None False])))
       = [Mitre False None, Generated False]"
proof -
  have a: "run provider [New False None None None False] = (loaded, [plain])"
    by (simp add: run_singleton init_plain)
  have b: "[plain] \<noteq> []" by simp
  from later_objects_share_documents [OF a b, of True None None None True] provider_nonempty a
  show ?thesis
    by (simp add: expanding_def loaded_def)
qed

end
